theory Spec2Isabelle
  imports Main "HOL-Library.FSet" "HOL-Library.Product_Lexorder"
begin

section \<open>Data model of \<open>clustering/table_raft/leader.cc\<close>\<close>

text \<open>
  Identifiers are UUIDs in the source; only equality and the total order used by
  \<open>std::set\<close>, \<open>std::map\<close> and \<open>std::sort\<close> matter to the code, so they are natural
  numbers here. \<open>nil_uuid()\<close> is \<open>0\<close>. A \<open>std::set\<close> is a finite set (iterated in
  ascending order), a \<open>std::map\<close> a partial function, a \<open>boost::optional\<close> an option.
\<close>

type_synonym server_id_t = nat
type_synonym branch_id_t = nat
type_synonym contract_id_t = nat
type_synonym uuid_u = nat
type_synonym state_timestamp_t = nat
type_synonym store_key_t = string

definition nil_uuid :: uuid_u where
  "nil_uuid = 0"

text \<open>
  Modelled from the spec: \<open>contract_ack_t::state_t\<close> is declared outside this file; these
  are the four states the code tests, which are the four the specification lists.
\<close>

datatype ack_state_t =
  primary_need_branch
  | primary_ready
  | secondary_need_primary
  | secondary_streaming

record primary_t =
  server :: server_id_t
  warm_shutdown :: bool
  warm_shutdown_for :: uuid_u
  hand_over :: "server_id_t option"

record contract_t =
  replicas :: "server_id_t fset"
  voters :: "server_id_t fset"
  temp_voters :: "server_id_t fset option"
  primary :: "primary_t option"
  branch :: branch_id_t

text \<open>\<open>table_config_t::shard_t\<close>; its \<open>replicas\<close> field is \<open>config_replicas\<close> here.\<close>

record shard_t =
  config_replicas :: "server_id_t fset"
  primary_replica :: server_id_t

text \<open>
  Modelled from the spec: \<open>region_t\<close> and \<open>key_range_t\<close> are declared outside this file.
  A key range is a half-open interval of keys; the code only reads \<open>inner.left\<close>.
\<close>

record key_range_t =
  left :: store_key_t
  right :: "store_key_t option"

record region_t =
  inner :: key_range_t

text \<open>
  What the code can raise: \<open>std::map::at\<close> throws \<open>std::out_of_range\<close> on a missing
  key, and dereferencing an empty \<open>boost::optional\<close> fails its assertion.
\<close>

datatype error = out_of_range | empty_optional

definition map_at :: "('k \<rightharpoonup> 'a) \<Rightarrow> 'k \<Rightarrow> error + 'a" where
  "map_at m k = (case m k of None \<Rightarrow> Inl out_of_range | Some v \<Rightarrow> Inr v)"

section \<open>\<open>calculate_contract\<close>, rule by rule\<close>

text \<open>Lines 31-36: servers of \<open>config.replicas\<close> missing from \<open>new_c.replicas\<close> are inserted.\<close>

definition add_new_replicas :: "shard_t \<Rightarrow> contract_t \<Rightarrow> contract_t" where
  "add_new_replicas config new_c =
     fold (\<lambda>server c.
             if server |\<notin>| replicas c
             then c\<lparr>replicas := finsert server (replicas c)\<rparr>
             else c)
          (sorted_list_of_fset (config_replicas config)) new_c"

text \<open>\<open>static_cast<bool>(c.primary) && c.primary->server == server\<close>.\<close>

definition is_primary :: "contract_t \<Rightarrow> server_id_t \<Rightarrow> bool" where
  "is_primary c s = (case primary c of None \<Rightarrow> False | Some p \<Rightarrow> server p = s)"

text \<open>Lines 41-50: the loop counting \<open>num_streaming\<close>.\<close>

definition num_streaming ::
  "contract_t \<Rightarrow> shard_t \<Rightarrow> (server_id_t \<rightharpoonup> ack_state_t) \<Rightarrow> nat" where
  "num_streaming old_c config ack_states =
     fold (\<lambda>server n.
             case ack_states server of
               None \<Rightarrow> n
             | Some st \<Rightarrow>
                 if st = secondary_streaming \<or> is_primary old_c server then Suc n else n)
          (sorted_list_of_fset (config_replicas config)) 0"

text \<open>The guard under which line 57 sets \<open>temp_voters\<close> (lines 40 and 55).\<close>

definition initiates ::
  "contract_t \<Rightarrow> shard_t \<Rightarrow> (server_id_t \<rightharpoonup> ack_state_t) \<Rightarrow> bool" where
  "initiates old_c config ack_states \<longleftrightarrow>
     temp_voters old_c = None \<and> voters old_c \<noteq> config_replicas config \<and>
     num_streaming old_c config ack_states > fcard (config_replicas config) div 2"

definition initiate_voter_change ::
  "contract_t \<Rightarrow> shard_t \<Rightarrow> (server_id_t \<rightharpoonup> ack_state_t) \<Rightarrow> contract_t \<Rightarrow> contract_t" where
  "initiate_voter_change old_c config ack_states new_c =
     (if initiates old_c config ack_states
      then new_c\<lparr>temp_voters := Some (config_replicas config)\<rparr>
      else new_c)"

text \<open>The guard under which lines 75-76 commit the voter change (lines 63 and 71-73).\<close>

definition commits :: "contract_t \<Rightarrow> (server_id_t \<rightharpoonup> ack_state_t) \<Rightarrow> bool" where
  "commits old_c ack_states \<longleftrightarrow>
     temp_voters old_c \<noteq> None \<and>
     (case primary old_c of
        None \<Rightarrow> False
      | Some p \<Rightarrow> ack_states (server p) = Some primary_ready)"

definition commit_voter_change ::
  "contract_t \<Rightarrow> (server_id_t \<rightharpoonup> ack_state_t) \<Rightarrow> contract_t \<Rightarrow> error + contract_t" where
  "commit_voter_change old_c ack_states new_c =
     (if commits old_c ack_states
      then (case temp_voters new_c of
              None \<Rightarrow> Inl empty_optional
            | Some tv \<Rightarrow> Inr (new_c\<lparr>voters := tv, temp_voters := None\<rparr>))
      else Inr new_c)"

text \<open>
  Lines 83-96: the loop over \<open>old_c.replicas\<close>, on the pair
  \<open>(should_kill_primary, new_c)\<close>.
\<close>

definition removable :: "contract_t \<Rightarrow> shard_t \<Rightarrow> server_id_t \<Rightarrow> bool" where
  "removable old_c config s \<longleftrightarrow>
     s |\<notin>| config_replicas config \<and> s |\<notin>| voters old_c \<and>
     (case temp_voters old_c of None \<Rightarrow> True | Some tv \<Rightarrow> s |\<notin>| tv)"

definition remove_old_replicas ::
  "contract_t \<Rightarrow> shard_t \<Rightarrow> contract_t \<Rightarrow> bool \<times> contract_t" where
  "remove_old_replicas old_c config new_c =
     fold (\<lambda>s (should_kill_primary, c).
             if removable old_c config s
             then (if is_primary old_c s
                   then (True, c)
                   else (should_kill_primary, c\<lparr>replicas := replicas c |-| {|s|}\<rparr>))
             else (should_kill_primary, c))
          (sorted_list_of_fset (replicas old_c)) (False, new_c)"

text \<open>
  Lines 112-121. \<open>version_project_to_branch\<close> and the branch history are declared
  outside this file: the projection, applied to the branch history, is a parameter, and
  versions are of any type \<open>'v\<close>. The loop adds one pair to \<open>replica_states\<close> for each
  voter that acked \<open>secondary_need_primary\<close>; \<open>ack_versions.at(server)\<close> throws when
  the server has no version. Here \<open>proj v\<close> is the projection of \<open>v\<close> to \<open>old_c.branch\<close>
  in the region.
\<close>

fun collect_replica_states ::
  "('v \<Rightarrow> state_timestamp_t) \<Rightarrow> (server_id_t \<rightharpoonup> ack_state_t) \<Rightarrow> (server_id_t \<rightharpoonup> 'v) \<Rightarrow>
   server_id_t list \<Rightarrow> (state_timestamp_t \<times> server_id_t) list \<Rightarrow>
   error + (state_timestamp_t \<times> server_id_t) list" where
  "collect_replica_states proj ack_states ack_versions [] replica_states = Inr replica_states"
| "collect_replica_states proj ack_states ack_versions (s # rest) replica_states =
     (if ack_states s = Some secondary_need_primary
      then (case map_at ack_versions s of
              Inl e \<Rightarrow> Inl e
            | Inr v \<Rightarrow>
                collect_replica_states proj ack_states ack_versions rest
                  (replica_states @ [(proj v, s)]))
      else collect_replica_states proj ack_states ack_versions rest replica_states)"

text \<open>Lines 126-132: the loop from index \<open>new_c.voters.size() / 2\<close>, with its \<open>break\<close>.\<close>

function select_primary ::
  "(state_timestamp_t \<times> server_id_t) list \<Rightarrow> server_id_t \<Rightarrow> nat \<Rightarrow>
   server_id_t option \<Rightarrow> server_id_t option" where
  "select_primary replica_states pr i new_primary =
     (if i < length replica_states
      then (if snd (replica_states ! i) = pr
            then Some (snd (replica_states ! i))
            else select_primary replica_states pr (Suc i) (Some (snd (replica_states ! i))))
      else new_primary)"
  by pat_completeness auto
termination
  by (relation "measure (\<lambda>(rs, pr, i, np). length rs - i)") auto

declare select_primary.simps [simp del]

text \<open>
  Lines 102-151. The new primary \<open>p\<close> is default-constructed, so its \<open>hand_over\<close> is
  empty. The result carries the list of calls made to \<open>branch_maker\<close>.
\<close>

definition elect_primary ::
  "('v \<Rightarrow> branch_id_t \<Rightarrow> region_t \<Rightarrow> state_timestamp_t) \<Rightarrow> region_t \<Rightarrow> contract_t \<Rightarrow>
   shard_t \<Rightarrow> (server_id_t \<rightharpoonup> ack_state_t) \<Rightarrow> (server_id_t \<rightharpoonup> 'v) \<Rightarrow>
   (server_id_t \<Rightarrow> 'v \<Rightarrow> branch_id_t) \<Rightarrow> contract_t \<Rightarrow>
   error + (contract_t \<times> (server_id_t \<times> 'v) list)" where
  "elect_primary version_project_to_branch region old_c config ack_states ack_versions
      branch_maker new_c =
     (case collect_replica_states (\<lambda>v. version_project_to_branch v (branch old_c) region)
             ack_states ack_versions (sorted_list_of_fset (voters new_c)) [] of
        Inl e \<Rightarrow> Inl e
      | Inr unsorted \<Rightarrow>
          (case select_primary (sort unsorted) (primary_replica config)
                  (fcard (voters new_c) div 2) None of
             None \<Rightarrow> Inr (new_c, [])
           | Some new_primary \<Rightarrow>
               (case map_at ack_versions new_primary of
                  Inl e \<Rightarrow> Inl e
                | Inr v \<Rightarrow>
                    Inr (new_c\<lparr>primary :=
                                 Some \<lparr>server = new_primary, warm_shutdown = False,
                                       warm_shutdown_for = nil_uuid, hand_over = None\<rparr>,
                               branch := branch_maker new_primary v\<rparr>,
                         [(new_primary, v)]))))"

text \<open>Lines 176-182: the loop counting \<open>voters_cant_reach_primary\<close>.\<close>

definition voters_cant_reach_primary ::
  "(server_id_t \<rightharpoonup> ack_state_t) \<Rightarrow> contract_t \<Rightarrow> nat" where
  "voters_cant_reach_primary ack_states new_c =
     fold (\<lambda>s n. if ack_states s = Some secondary_need_primary then Suc n else n)
          (sorted_list_of_fset (voters new_c)) 0"

text \<open>\<open>new_c.primary->hand_over = h\<close>, which needs \<open>new_c.primary\<close> to hold a value.\<close>

definition set_hand_over :: "server_id_t option \<Rightarrow> contract_t \<Rightarrow> error + contract_t" where
  "set_hand_over h new_c =
     (case primary new_c of
        None \<Rightarrow> Inl empty_optional
      | Some p \<Rightarrow> Inr (new_c\<lparr>primary := Some (p\<lparr>hand_over := h\<rparr>)\<rparr>))"

text \<open>Lines 167-213, for an old contract whose primary is \<open>p\<close>.\<close>

definition replace_primary ::
  "primary_t \<Rightarrow> shard_t \<Rightarrow> (server_id_t \<rightharpoonup> ack_state_t) \<Rightarrow> bool \<Rightarrow> contract_t \<Rightarrow>
   error + contract_t" where
  "replace_primary p config ack_states should_kill_primary new_c =
     (let should_kill_primary' =
            (if voters_cant_reach_primary ack_states new_c > fcard (voters new_c) div 2
             then True else should_kill_primary)
      in if should_kill_primary' then Inr (new_c\<lparr>primary := None\<rparr>)
         else if server p \<noteq> primary_replica config \<and>
                 ack_states (primary_replica config) = Some secondary_streaming
         then (if hand_over p = Some (primary_replica config) \<and>
                  ack_states (server p) = Some primary_ready
               then Inr (new_c\<lparr>primary := None\<rparr>)
               else set_hand_over (Some (primary_replica config)) new_c)
         else set_hand_over None new_c)"

text \<open>
  Lines 215-222. The guard compares the old and the new primary; the assignment of
  line 221 is to \<open>old_c.branch\<close>, so it is the old contract that this step returns.
\<close>

definition asks_for_branch ::
  "contract_t \<Rightarrow> (server_id_t \<rightharpoonup> ack_state_t) \<Rightarrow> contract_t \<Rightarrow> bool" where
  "asks_for_branch old_c ack_states new_c \<longleftrightarrow>
     (case primary old_c of
        None \<Rightarrow> False
      | Some p \<Rightarrow>
          (case primary new_c of
             None \<Rightarrow> False
           | Some q \<Rightarrow> server p = server q \<and>
                       ack_states (server p) = Some primary_need_branch))"

definition register_branch ::
  "contract_t \<Rightarrow> (server_id_t \<rightharpoonup> ack_state_t) \<Rightarrow> (server_id_t \<rightharpoonup> branch_id_t) \<Rightarrow>
   contract_t \<Rightarrow> error + contract_t" where
  "register_branch old_c ack_states ack_branches new_c =
     (if asks_for_branch old_c ack_states new_c
      then (case primary old_c of
              None \<Rightarrow> Inl empty_optional
            | Some p \<Rightarrow>
                (case map_at ack_branches (server p) of
                   Inl e \<Rightarrow> Inl e
                 | Inr b \<Rightarrow> Inr (old_c\<lparr>branch := b\<rparr>)))
      else Inr old_c)"

text \<open>
  The whole function. \<open>run_calculate_contract\<close> returns the locals at the
  \<open>return\<close> statement: \<open>new_c\<close>, \<open>old_c\<close> and the calls made to \<open>branch_maker\<close>;
  \<open>calculate_contract\<close> returns what the source returns, \<open>new_c\<close>.
\<close>

record 'v locals =
  final_new_c :: contract_t
  final_old_c :: contract_t
  branch_maker_calls :: "(server_id_t \<times> 'v) list"

definition run_calculate_contract ::
  "('v \<Rightarrow> branch_id_t \<Rightarrow> region_t \<Rightarrow> state_timestamp_t) \<Rightarrow> region_t \<Rightarrow> contract_t \<Rightarrow>
   shard_t \<Rightarrow> (server_id_t \<rightharpoonup> ack_state_t) \<Rightarrow> (server_id_t \<rightharpoonup> 'v) \<Rightarrow>
   (server_id_t \<rightharpoonup> branch_id_t) \<Rightarrow> (server_id_t \<Rightarrow> 'v \<Rightarrow> branch_id_t) \<Rightarrow>
   error + 'v locals" where
  "run_calculate_contract version_project_to_branch region old_c config ack_states
      ack_versions ack_branches branch_maker =
     (let c1 = add_new_replicas config old_c;
          c2 = initiate_voter_change old_c config ack_states c1
      in case commit_voter_change old_c ack_states c2 of
           Inl e \<Rightarrow> Inl e
         | Inr c3 \<Rightarrow>
             (let (should_kill_primary, c4) = remove_old_replicas old_c config c3
              in case (case primary old_c of
                         None \<Rightarrow>
                           elect_primary version_project_to_branch region old_c config
                             ack_states ack_versions branch_maker c4
                       | Some p \<Rightarrow>
                           (case replace_primary p config ack_states should_kill_primary c4 of
                              Inl e \<Rightarrow> Inl e
                            | Inr c \<Rightarrow> Inr (c, []))) of
                   Inl e \<Rightarrow> Inl e
                 | Inr (c6, calls) \<Rightarrow>
                     (case register_branch old_c ack_states ack_branches c6 of
                        Inl e \<Rightarrow> Inl e
                      | Inr old_c' \<Rightarrow>
                          Inr \<lparr>final_new_c = c6, final_old_c = old_c', branch_maker_calls = calls\<rparr>)))"

definition calculate_contract ::
  "('v \<Rightarrow> branch_id_t \<Rightarrow> region_t \<Rightarrow> state_timestamp_t) \<Rightarrow> region_t \<Rightarrow> contract_t \<Rightarrow>
   shard_t \<Rightarrow> (server_id_t \<rightharpoonup> ack_state_t) \<Rightarrow> (server_id_t \<rightharpoonup> 'v) \<Rightarrow>
   (server_id_t \<rightharpoonup> branch_id_t) \<Rightarrow> (server_id_t \<Rightarrow> 'v \<Rightarrow> branch_id_t) \<Rightarrow>
   error + contract_t" where
  "calculate_contract version_project_to_branch region old_c config ack_states
      ack_versions ack_branches branch_maker =
     (case run_calculate_contract version_project_to_branch region old_c config ack_states
             ack_versions ack_branches branch_maker of
        Inl e \<Rightarrow> Inl e
      | Inr l \<Rightarrow> Inr (final_new_c l))"

text \<open>
  The value of \<open>new_c.voters\<close> once lines 61-78 have run: \<open>old_c.temp_voters\<close> after
  a commit, \<open>old_c.voters\<close> otherwise. The loops of lines 113 and 177 range over it.
\<close>

definition current_voters ::
  "contract_t \<Rightarrow> (server_id_t \<rightharpoonup> ack_state_t) \<Rightarrow> server_id_t fset" where
  "current_voters old_c ack_states =
     (case temp_voters old_c of
        None \<Rightarrow> voters old_c
      | Some tv \<Rightarrow> if commits old_c ack_states then tv else voters old_c)"

section \<open>\<open>leader_t::pump_contracts\<close>\<close>

text \<open>
  \<open>branch_birth_certificate_t\<close>: its \<open>origin\<close> is a \<open>region_map_t<version_t>\<close>, which the
  code iterates as pairs of a region and a version.
\<close>

record 'v branch_birth_certificate_t =
  origin :: "(region_t \<times> 'v) list"

text \<open>
  The leader's \<open>state_t\<close>. The code reads \<open>old_state.contracts\<close>.
  Modelled from the spec: the shard configuration, a list of key ranges with their
  shard, is declared outside this file and never read by the code.
\<close>

record state_t =
  table_config :: "(key_range_t \<times> shard_t) list"
  contracts :: "(contract_id_t \<times> region_t \<times> contract_t) list"

text \<open>The locals of \<open>pump_contracts\<close> at the end of its body (lines 236-248).\<close>

record 'v pump_locals =
  split_points :: "store_key_t fset"
  old_contract_table :: "store_key_t \<rightharpoonup> contract_t"
  ack_state_table :: "store_key_t \<rightharpoonup> ack_state_t"
  ack_version_table :: "store_key_t \<rightharpoonup> 'v"
  ack_branch_table :: "store_key_t \<rightharpoonup> branch_id_t"

text \<open>
  Lines 237-241 insert \<open>pair2.first.inner.left\<close> for every origin of every branch; the
  body of the loop of lines 243-245 over \<open>old_state.contracts\<close> is empty, and the three
  ack tables are declared and left empty.
\<close>

definition pump_contracts ::
  "(branch_id_t \<times> 'v branch_birth_certificate_t) list \<Rightarrow> state_t \<Rightarrow> 'v pump_locals" where
  "pump_contracts branch_history old_state =
     (let split_points =
            fold (\<lambda>pair sp.
                    fold (\<lambda>pair2 sp'. finsert (left (inner (fst pair2))) sp')
                         (origin (snd pair)) sp)
                 branch_history {||};
          old_contract_table = fold (\<lambda>pair t. t) (contracts old_state) Map.empty
      in \<lparr>split_points = split_points, old_contract_table = old_contract_table,
          ack_state_table = Map.empty, ack_version_table = Map.empty,
          ack_branch_table = Map.empty\<rparr>)"

section \<open>Notions of the specification\<close>

text \<open>
  The specification's count for the start of a voter change, in its words: the servers
  of \<open>shard_config.replicas\<close> that are reporting "streaming" or are the current primary.
\<close>

definition spec_num_streaming ::
  "contract_t \<Rightarrow> shard_t \<Rightarrow> (server_id_t \<rightharpoonup> ack_state_t) \<Rightarrow> nat" where
  "spec_num_streaming old_c config ack_states =
     fcard (ffilter (\<lambda>s. ack_states s = Some secondary_streaming \<or> is_primary old_c s)
                    (config_replicas config))"

text \<open>
  The code's count, as a cardinality: the servers of \<open>config.replicas\<close> that have an entry
  in \<open>ack_states\<close> and are streaming or the old primary.
\<close>

definition acked_streaming_or_primary ::
  "contract_t \<Rightarrow> (server_id_t \<rightharpoonup> ack_state_t) \<Rightarrow> server_id_t \<Rightarrow> bool" where
  "acked_streaming_or_primary old_c ack_states s \<longleftrightarrow>
     ack_states s \<noteq> None \<and>
     (ack_states s = Some secondary_streaming \<or> is_primary old_c s)"

text \<open>A voter that acked \<open>secondary_need_primary\<close> with a version.\<close>

definition need_primary ::
  "(server_id_t \<rightharpoonup> ack_state_t) \<Rightarrow> (server_id_t \<rightharpoonup> 'v) \<Rightarrow> server_id_t \<Rightarrow> bool" where
  "need_primary ack_states ack_versions s \<longleftrightarrow>
     ack_states s = Some secondary_need_primary \<and> ack_versions s \<noteq> None"

text \<open>
  The candidates of an election: the pair of projected timestamp and server id of every
  voter that acked "need primary"; the rank of a candidate is the number of candidates
  strictly before it in the order by timestamp, then server id; a candidate is eligible
  when its rank is at least half the number of voters.
\<close>

definition candidates ::
  "('v \<Rightarrow> branch_id_t \<Rightarrow> region_t \<Rightarrow> state_timestamp_t) \<Rightarrow> region_t \<Rightarrow> contract_t \<Rightarrow>
   (server_id_t \<rightharpoonup> ack_state_t) \<Rightarrow> (server_id_t \<rightharpoonup> 'v) \<Rightarrow>
   (state_timestamp_t \<times> server_id_t) fset" where
  "candidates version_project_to_branch region old_c ack_states ack_versions =
     (\<lambda>s. (version_project_to_branch (the (ack_versions s)) (branch old_c) region, s)) |`|
       ffilter (need_primary ack_states ack_versions) (voters old_c)"

definition rank ::
  "(state_timestamp_t \<times> server_id_t) fset \<Rightarrow> state_timestamp_t \<times> server_id_t \<Rightarrow> nat" where
  "rank C x = fcard (ffilter (\<lambda>y. y < x) C)"

definition eligible ::
  "contract_t \<Rightarrow> (state_timestamp_t \<times> server_id_t) fset \<Rightarrow>
   state_timestamp_t \<times> server_id_t \<Rightarrow> bool" where
  "eligible old_c C x \<longleftrightarrow> x |\<in>| C \<and> fcard (voters old_c) div 2 \<le> rank C x"

text \<open>
  The locals when line 97 is reached, in closed form: \<open>should_kill_primary\<close> and
  \<open>new_c\<close> after lines 29-96.
\<close>

definition stale_primary :: "contract_t \<Rightarrow> shard_t \<Rightarrow> bool" where
  "stale_primary old_c config \<longleftrightarrow>
     fBex (replicas old_c) (\<lambda>s. removable old_c config s \<and> is_primary old_c s)"

definition settled ::
  "contract_t \<Rightarrow> shard_t \<Rightarrow> (server_id_t \<rightharpoonup> ack_state_t) \<Rightarrow> contract_t" where
  "settled old_c config ack_states =
     old_c\<lparr>replicas :=
             (replicas old_c |\<union>| config_replicas config) |-|
             ffilter (\<lambda>s. removable old_c config s \<and> \<not> is_primary old_c s) (replicas old_c),
           voters := current_voters old_c ack_states,
           temp_voters :=
             (if initiates old_c config ack_states then Some (config_replicas config)
              else if commits old_c ack_states then None
              else temp_voters old_c)\<rparr>"

section \<open>What an input must provide\<close>

text \<open>
  Line 117 reads \<open>ack_versions.at(server)\<close> for every voter that acked
  \<open>secondary_need_primary\<close>, when the old contract has no primary.
\<close>

definition versions_present ::
  "contract_t \<Rightarrow> (server_id_t \<rightharpoonup> ack_state_t) \<Rightarrow> (server_id_t \<rightharpoonup> 'v) \<Rightarrow> bool" where
  "versions_present old_c ack_states ack_versions \<longleftrightarrow>
     (case primary old_c of
        Some p \<Rightarrow> True
      | None \<Rightarrow>
          fBall (voters old_c)
            (\<lambda>s. ack_states s = Some secondary_need_primary \<longrightarrow> ack_versions s \<noteq> None))"

text \<open>
  Line 221 reads \<open>ack_branches.at(old_c.primary->server)\<close> when the old primary acked
  \<open>primary_need_branch\<close> and is still the primary at line 216: it was not found stale by
  lines 83-96, and the voters that acked \<open>secondary_need_primary\<close> are not more than half
  of the voters (lines 176-188). With that ack no voter change is committed, so the
  voters are the old ones, and no hand-over is completed.
\<close>

definition branch_present ::
  "contract_t \<Rightarrow> shard_t \<Rightarrow> (server_id_t \<rightharpoonup> ack_state_t) \<Rightarrow>
   (server_id_t \<rightharpoonup> branch_id_t) \<Rightarrow> bool" where
  "branch_present old_c config ack_states ack_branches \<longleftrightarrow>
     (case primary old_c of
        None \<Rightarrow> True
      | Some p \<Rightarrow>
          ack_states (server p) = Some primary_need_branch \<and>
          \<not> stale_primary old_c config \<and>
          \<not> fcard (voters old_c) div 2 <
              fcard (ffilter (\<lambda>s. ack_states s = Some secondary_need_primary) (voters old_c))
          \<longrightarrow> ack_branches (server p) \<noteq> None)"

text \<open>
  The servers relevant to a call: those of \<open>config.replicas\<close>, of the old voters and
  \<open>temp_voters\<close>, the old primary and \<open>config.primary_replica\<close>.
\<close>

definition relevant :: "contract_t \<Rightarrow> shard_t \<Rightarrow> server_id_t \<Rightarrow> bool" where
  "relevant old_c config s \<longleftrightarrow>
     s |\<in>| config_replicas config \<or> s |\<in>| voters old_c \<or>
     (case temp_voters old_c of None \<Rightarrow> False | Some tv \<Rightarrow> s |\<in>| tv) \<or>
     is_primary old_c s \<or> s = primary_replica config"

section \<open>Example inputs\<close>

text \<open>
  The pieces shared by the concrete inputs below: a region over all keys, a primary as
  lines 144-148 build it, versions that are timestamps on one branch (their projection
  is the timestamp itself), and a \<open>branch_maker\<close> that returns branch \<open>7\<close>.
\<close>

definition all_keys :: region_t where
  "all_keys = \<lparr>inner = \<lparr>left = [], right = None\<rparr>\<rparr>"

definition primary_on :: "server_id_t \<Rightarrow> primary_t" where
  "primary_on s =
     \<lparr>server = s, warm_shutdown = False, warm_shutdown_for = nil_uuid, hand_over = None\<rparr>"

definition timestamp_of :: "nat \<Rightarrow> branch_id_t \<Rightarrow> region_t \<Rightarrow> state_timestamp_t" where
  "timestamp_of v b r = v"

definition branch_7 :: "server_id_t \<Rightarrow> nat \<Rightarrow> branch_id_t" where
  "branch_7 s v = 7"

section \<open>The loops in closed form\<close>

lemma fold_count:
  "fold (\<lambda>s n. if P s then Suc n else n) xs k = k + length (filter P xs)"
  by (induction xs arbitrary: k) auto

lemma count_sorted_list_of_fset:
  "length (filter P (sorted_list_of_fset A)) = fcard (ffilter P A)"
proof -
  have "distinct (sorted_list_of_fset A)"
    by (simp add: sorted_list_of_fset.rep_eq)
  then have "distinct (filter P (sorted_list_of_fset A))"
    by (rule distinct_filter)
  then have "length (filter P (sorted_list_of_fset A)) = card (set (filter P (sorted_list_of_fset A)))"
    by (rule distinct_card [symmetric])
  also have "set (filter P (sorted_list_of_fset A)) = fset (ffilter P A)"
    by auto
  finally show ?thesis by (simp add: fcard.rep_eq)
qed

lemma fold_add_replicas:
  "fold (\<lambda>server c. if server |\<notin>| replicas c then c\<lparr>replicas := finsert server (replicas c)\<rparr> else c) xs c
     = c\<lparr>replicas := replicas c |\<union>| fset_of_list xs\<rparr>"
  by (induction xs arbitrary: c) (auto simp: finsert_absorb)

lemma add_new_replicas_eq:
  "add_new_replicas config c = c\<lparr>replicas := replicas c |\<union>| config_replicas config\<rparr>"
  by (simp add: add_new_replicas_def fold_add_replicas)

lemma num_streaming_eq:
  "num_streaming old_c config ack_states =
     fcard (ffilter (\<lambda>s. ack_states s \<noteq> None \<and>
                          (ack_states s = Some secondary_streaming \<or> is_primary old_c s))
                    (config_replicas config))"
proof -
  have "(\<lambda>server n. case ack_states server of None \<Rightarrow> n
             | Some st \<Rightarrow> if st = secondary_streaming \<or> is_primary old_c server then Suc n else n)
      = (\<lambda>s n. if ack_states s \<noteq> None \<and>
                          (ack_states s = Some secondary_streaming \<or> is_primary old_c s) then Suc n else n)"
    by (auto simp: fun_eq_iff split: option.splits)
  then show ?thesis
    by (simp add: num_streaming_def fold_count count_sorted_list_of_fset)
qed

lemma voters_cant_reach_primary_eq:
  "voters_cant_reach_primary ack_states c =
     fcard (ffilter (\<lambda>s. ack_states s = Some secondary_need_primary) (voters c))"
  by (simp add: voters_cant_reach_primary_def fold_count count_sorted_list_of_fset)

lemma fold_remove:
  "fold (\<lambda>s (k, c).
             if R s
             then (if Q s then (True, c) else (k, c\<lparr>replicas := replicas c |-| {|s|}\<rparr>))
             else (k, c)) xs (k0, c0)
   = (k0 \<or> (\<exists>s \<in> set xs. R s \<and> Q s),
      c0\<lparr>replicas := replicas c0 |-| fset_of_list (filter (\<lambda>s. R s \<and> \<not> Q s) xs)\<rparr>)"
proof (induction xs arbitrary: k0 c0)
  case Nil
  then show ?case by simp
next
  case (Cons a xs)
  have "replicas c0 |-| {|a|} |-| A = replicas c0 |-| finsert a A" for A
    by auto
  with Cons show ?case by auto
qed

lemma remove_old_replicas_eq:
  "remove_old_replicas old_c config c =
     (\<exists>s. s |\<in>| replicas old_c \<and> removable old_c config s \<and> is_primary old_c s,
      c\<lparr>replicas := replicas c |-|
           ffilter (\<lambda>s. removable old_c config s \<and> \<not> is_primary old_c s) (replicas old_c)\<rparr>)"
proof -
  have "fset_of_list (filter (\<lambda>s. removable old_c config s \<and> \<not> is_primary old_c s)
            (sorted_list_of_fset (replicas old_c)))
        = ffilter (\<lambda>s. removable old_c config s \<and> \<not> is_primary old_c s) (replicas old_c)"
    by (auto simp: fset_of_list.rep_eq)
  then show ?thesis
    by (auto simp add: remove_old_replicas_def fold_remove)
qed

lemma collect_replica_states_eq:
  "collect_replica_states f acks vers xs acc =
     (if \<exists>s \<in> set xs. acks s = Some secondary_need_primary \<and> vers s = None
      then Inl out_of_range
      else Inr (acc @ map (\<lambda>s. (f (the (vers s)), s))
                        (filter (\<lambda>s. acks s = Some secondary_need_primary) xs)))"
  by (induction xs arbitrary: acc) (auto simp: map_at_def split: option.splits)

lemma select_primary_eq:
  "select_primary rs pr i np =
     (if pr \<in> snd ` set (drop i rs) then Some pr
      else if i < length rs then Some (snd (last rs))
      else np)"
proof (induction rs pr i np rule: select_primary.induct)
  case (1 rs pr i np)
  show ?case
  proof (cases "i < length rs")
    case False
    then show ?thesis by (simp add: select_primary.simps)
  next
    case True
    then have d: "drop i rs = rs ! i # drop (Suc i) rs"
      by (simp add: Cons_nth_drop_Suc)
    show ?thesis
    proof (cases "snd (rs ! i) = pr")
      case True
      with \<open>i < length rs\<close> d show ?thesis
        by (subst select_primary.simps) simp
    next
      case False
      have l: "rs ! i = last rs" if "\<not> Suc i < length rs"
      proof -
        from that \<open>i < length rs\<close> have "i = length rs - 1" by arith
        moreover from \<open>i < length rs\<close> have "rs \<noteq> []" by auto
        ultimately show ?thesis by (simp add: last_conv_nth)
      qed
      have step: "select_primary rs pr i np =
                    select_primary rs pr (Suc i) (Some (snd (rs ! i)))"
        using False \<open>i < length rs\<close> by (subst select_primary.simps) simp
      have ih: "select_primary rs pr (Suc i) (Some (snd (rs ! i))) =
         (if pr \<in> snd ` set (drop (Suc i) rs) then Some pr
          else if Suc i < length rs then Some (snd (last rs))
          else Some (snd (rs ! i)))"
        using "1.IH" [OF \<open>i < length rs\<close> False] .
      have mem: "pr \<in> snd ` set (drop i rs) \<longleftrightarrow> pr \<in> snd ` set (drop (Suc i) rs)"
        using False by (simp add: d)
      show ?thesis
        unfolding step ih mem using \<open>i < length rs\<close> l by simp
    qed
  qed
qed

lemma select_primary_mem:
  assumes "select_primary rs pr i None = Some e"
  shows "e \<in> snd ` set rs"
proof (cases "pr \<in> snd ` set (drop i rs)")
  case True
  with assms have "e = pr" by (simp add: select_primary_eq)
  moreover from True have "pr \<in> snd ` set rs"
    using set_drop_subset [of i rs] by auto
  ultimately show ?thesis by simp
next
  case False
  with assms have "i < length rs" "e = snd (last rs)"
    by (auto simp: select_primary_eq split: if_splits)
  moreover then have "rs \<noteq> []" by auto
  ultimately show ?thesis by simp
qed

section \<open>The function in closed form\<close>

lemma commit_after_initiate:
  "commit_voter_change old_c acks
     (initiate_voter_change old_c config acks (add_new_replicas config old_c))
   = Inr (old_c\<lparr>replicas := replicas old_c |\<union>| config_replicas config,
               voters := current_voters old_c acks,
               temp_voters := (if initiates old_c config acks then Some (config_replicas config)
                               else if commits old_c acks then None
                               else temp_voters old_c)\<rparr>)"
  by (cases "temp_voters old_c")
     (auto simp: commit_voter_change_def initiate_voter_change_def add_new_replicas_eq
        commits_def initiates_def current_voters_def)

lemma reach_line_97:
  "remove_old_replicas old_c config
     (old_c\<lparr>replicas := replicas old_c |\<union>| config_replicas config,
            voters := current_voters old_c acks,
            temp_voters := (if initiates old_c config acks then Some (config_replicas config)
                            else if commits old_c acks then None
                            else temp_voters old_c)\<rparr>)
   = (stale_primary old_c config, settled old_c config acks)"
  by (auto simp add: remove_old_replicas_eq stale_primary_def settled_def)

lemma run_calculate_contract_eq:
  "run_calculate_contract proj region old_c config acks vers brs bm =
     (case (case primary old_c of
              None \<Rightarrow> elect_primary proj region old_c config acks vers bm
                        (settled old_c config acks)
            | Some p \<Rightarrow>
                (case replace_primary p config acks (stale_primary old_c config)
                        (settled old_c config acks) of
                   Inl e \<Rightarrow> Inl e
                 | Inr c \<Rightarrow> Inr (c, []))) of
        Inl e \<Rightarrow> Inl e
      | Inr (c6, calls) \<Rightarrow>
          (case register_branch old_c acks brs c6 of
             Inl e \<Rightarrow> Inl e
           | Inr old_c' \<Rightarrow>
               Inr \<lparr>final_new_c = c6, final_old_c = old_c', branch_maker_calls = calls\<rparr>))"
  by (simp only: run_calculate_contract_def Let_def commit_after_initiate sum.case
        reach_line_97 prod.case)

lemma settled_simps:
  "voters (settled old_c config acks) = current_voters old_c acks"
  "primary (settled old_c config acks) = primary old_c"
  "branch (settled old_c config acks) = branch old_c"
  "temp_voters (settled old_c config acks) =
     (if initiates old_c config acks then Some (config_replicas config)
      else if commits old_c acks then None
      else temp_voters old_c)"
  "replicas (settled old_c config acks) =
     (replicas old_c |\<union>| config_replicas config) |-|
     ffilter (\<lambda>s. removable old_c config s \<and> \<not> is_primary old_c s) (replicas old_c)"
  by (simp_all add: settled_def)

lemma current_voters_no_primary:
  "primary old_c = None \<Longrightarrow> current_voters old_c acks = voters old_c"
  by (simp add: current_voters_def commits_def split: option.splits)

lemma map_at_Some: "m k = Some v \<Longrightarrow> map_at m k = Inr v"
  by (simp add: map_at_def)

lemma elect_primary_eq:
  "elect_primary proj region old_c config acks vers bm c =
     (if \<exists>s. s |\<in>| voters c \<and> acks s = Some secondary_need_primary \<and> vers s = None
      then Inl out_of_range
      else (case select_primary
                   (sort (map (\<lambda>s. (proj (the (vers s)) (branch old_c) region, s))
                            (filter (\<lambda>s. acks s = Some secondary_need_primary)
                               (sorted_list_of_fset (voters c)))))
                   (primary_replica config) (fcard (voters c) div 2) None of
              None \<Rightarrow> Inr (c, [])
            | Some e \<Rightarrow>
                Inr (c\<lparr>primary := Some \<lparr>server = e, warm_shutdown = False,
                                       warm_shutdown_for = nil_uuid, hand_over = None\<rparr>,
                       branch := bm e (the (vers e))\<rparr>,
                     [(e, the (vers e))])))"
proof (cases "\<exists>s. s |\<in>| voters c \<and> acks s = Some secondary_need_primary \<and> vers s = None")
  case True
  then show ?thesis
    by (auto simp: elect_primary_def collect_replica_states_eq)
next
  case False
  define rs where "rs = sort (map (\<lambda>s. (proj (the (vers s)) (branch old_c) region, s))
                            (filter (\<lambda>s. acks s = Some secondary_need_primary)
                               (sorted_list_of_fset (voters c))))"
  have at: "map_at vers e = Inr (the (vers e))"
    if "select_primary rs (primary_replica config) (fcard (voters c) div 2) None = Some e" for e
  proof -
    from that have "e \<in> snd ` set rs" by (rule select_primary_mem)
    then have "e |\<in>| voters c" "acks e = Some secondary_need_primary"
      by (auto simp: rs_def)
    with False obtain v where "vers e = Some v" by auto
    then show ?thesis by (simp add: map_at_Some)
  qed
  from False have "collect_replica_states (\<lambda>v. proj v (branch old_c) region) acks vers
                     (sorted_list_of_fset (voters c)) []
                   = Inr (map (\<lambda>s. (proj (the (vers s)) (branch old_c) region, s))
                            (filter (\<lambda>s. acks s = Some secondary_need_primary)
                               (sorted_list_of_fset (voters c))))"
    by (auto simp: collect_replica_states_eq)
  then show ?thesis
    using False at
    by (auto simp: elect_primary_def rs_def [symmetric] split: option.splits)
qed

lemma elect_primary_fields:
  assumes "elect_primary proj region old_c config acks vers bm c = Inr (c', calls)"
  shows "replicas c' = replicas c \<and> voters c' = voters c \<and> temp_voters c' = temp_voters c"
  using assms
  by (auto simp: elect_primary_def split: sum.splits option.splits)

lemma replace_primary_fields:
  assumes "replace_primary p config acks k c = Inr c'"
  shows "replicas c' = replicas c \<and> voters c' = voters c \<and> temp_voters c' = temp_voters c"
  using assms
  by (auto simp: replace_primary_def set_hand_over_def Let_def split: if_splits option.splits)

lemma calculate_contract_InrD:
  assumes "calculate_contract proj region old_c config acks vers brs bm = Inr c"
  shows "replicas c = replicas (settled old_c config acks) \<and>
         voters c = voters (settled old_c config acks) \<and>
         temp_voters c = temp_voters (settled old_c config acks)"
proof (cases "primary old_c")
  case None
  with assms obtain calls where
    "elect_primary proj region old_c config acks vers bm (settled old_c config acks) = Inr (c, calls)"
    unfolding calculate_contract_def run_calculate_contract_eq
    by (auto split: sum.splits prod.splits)
  then show ?thesis by (rule elect_primary_fields)
next
  case (Some p)
  with assms have
    "replace_primary p config acks (stale_primary old_c config) (settled old_c config acks) = Inr c"
    unfolding calculate_contract_def run_calculate_contract_eq
    by (auto split: sum.splits prod.splits)
  then show ?thesis by (rule replace_primary_fields)
qed

lemma set_hand_over_Some:
  "primary c = Some p \<Longrightarrow> set_hand_over h c = Inr (c\<lparr>primary := Some (p\<lparr>hand_over := h\<rparr>)\<rparr>)"
  by (simp add: set_hand_over_def)

lemma register_branch_no_primary:
  "primary c = None \<Longrightarrow> register_branch old_c acks brs c = Inr old_c"
  by (simp add: register_branch_def asks_for_branch_def split: option.splits)

lemma need_primary_filter:
  assumes "\<not> (\<exists>s. s |\<in>| V \<and> acks s = Some secondary_need_primary \<and> vers s = None)"
  shows "ffilter (\<lambda>s. acks s = Some secondary_need_primary) V = ffilter (need_primary acks vers) V"
  using assms by (auto simp: need_primary_def)

lemma election_result:
  assumes "primary old_c = None"
    and "calculate_contract proj region old_c config acks vers brs bm = Inr c"
  shows "\<not> (\<exists>s. s |\<in>| voters old_c \<and> acks s = Some secondary_need_primary \<and> vers s = None) \<and>
         primary c =
           map_option (\<lambda>e. \<lparr>server = e, warm_shutdown = False, warm_shutdown_for = nil_uuid,
                             hand_over = None\<rparr>)
             (select_primary
                (sort (map (\<lambda>s. (proj (the (vers s)) (branch old_c) region, s))
                         (filter (\<lambda>s. acks s = Some secondary_need_primary)
                            (sorted_list_of_fset (voters old_c)))))
                (primary_replica config) (fcard (voters old_c) div 2) None)"
proof -
  from assms obtain calls where
    e: "elect_primary proj region old_c config acks vers bm (settled old_c config acks)
          = Inr (c, calls)"
    unfolding calculate_contract_def run_calculate_contract_eq
    by (auto split: sum.splits prod.splits)
  have v: "voters (settled old_c config acks) = voters old_c"
    using assms(1) by (simp add: settled_simps current_voters_no_primary)
  have p: "primary (settled old_c config acks) = None"
    using assms(1) by (simp add: settled_simps)
  from e show ?thesis
    unfolding elect_primary_eq v
    by (auto simp: p split: if_splits option.splits)
qed

section \<open>Sorted lists and ranks\<close>

lemma card_below_nth:
  fixes xs :: "('a::linorder) list"
  assumes "sorted xs" "distinct xs" "i < length xs"
  shows "card {y \<in> set xs. y < xs ! i} = i"
proof -
  have "{y \<in> set xs. y < xs ! i} = set (take i xs)"
  proof (intro set_eqI iffI)
    fix y assume "y \<in> {y \<in> set xs. y < xs ! i}"
    then obtain j where j: "j < length xs" "y = xs ! j" "xs ! j < xs ! i"
      by (auto simp: in_set_conv_nth)
    have "j < i"
    proof (rule ccontr)
      assume "\<not> j < i"
      then have "i \<le> j" by simp
      with assms(1) j(1) have "xs ! i \<le> xs ! j" by (simp add: sorted_nth_mono)
      with j(3) show False by simp
    qed
    with j assms(3) show "y \<in> set (take i xs)"
      by (auto simp: in_set_conv_nth)
  next
    fix y assume "y \<in> set (take i xs)"
    then obtain j where j: "j < i" "y = xs ! j"
      by (auto simp: in_set_conv_nth)
    from j assms have "xs ! j \<le> xs ! i" by (simp add: sorted_nth_mono)
    moreover from j assms have "xs ! j \<noteq> xs ! i" by (simp add: nth_eq_iff_index_eq)
    ultimately have "xs ! j < xs ! i" by simp
    with j assms(3) show "y \<in> {y \<in> set xs. y < xs ! i}" by simp
  qed
  moreover from assms(2) have "distinct (take i xs)" by simp
  ultimately show ?thesis using assms(3) by (simp add: distinct_card)
qed

lemma set_drop_sorted:
  fixes xs :: "('a::linorder) list"
  assumes "sorted xs" "distinct xs"
  shows "x \<in> set (drop k xs) \<longleftrightarrow> x \<in> set xs \<and> k \<le> card {y \<in> set xs. y < x}"
proof
  assume "x \<in> set (drop k xs)"
  then obtain j where j: "j < length xs - k" "x = xs ! (k + j)"
    by (auto simp: in_set_conv_nth)
  then have "k + j < length xs" by simp
  with assms j show "x \<in> set xs \<and> k \<le> card {y \<in> set xs. y < x}"
    by (simp add: card_below_nth)
next
  assume a: "x \<in> set xs \<and> k \<le> card {y \<in> set xs. y < x}"
  then obtain i where i: "i < length xs" "x = xs ! i"
    by (auto simp: in_set_conv_nth)
  with assms a have "k \<le> i" by (simp add: card_below_nth)
  with i show "x \<in> set (drop k xs)"
    by (auto simp: in_set_conv_nth intro!: exI [of _ "i - k"])
qed

lemma last_sorted_max:
  fixes xs :: "('a::linorder) list"
  assumes "sorted xs" "y \<in> set xs"
  shows "y \<le> last xs"
proof -
  from assms(2) obtain j where j: "j < length xs" "y = xs ! j"
    by (auto simp: in_set_conv_nth)
  then have "xs \<noteq> []" by auto
  then have "last xs = xs ! (length xs - 1)" by (simp add: last_conv_nth)
  moreover from assms(1) j have "xs ! j \<le> xs ! (length xs - 1)"
    by (intro sorted_nth_mono) auto
  ultimately show ?thesis using j by simp
qed

lemma eligible_iff_drop:
  assumes "sorted rs" "distinct rs" "set rs = fset C"
  shows "eligible old_c C x \<longleftrightarrow> x \<in> set (drop (fcard (voters old_c) div 2) rs)"
proof -
  have "rank C x = card {y \<in> set rs. y < x}"
    unfolding rank_def fcard.rep_eq assms(3)
    by (rule arg_cong [where f = card]) auto
  then show ?thesis
    by (simp add: eligible_def set_drop_sorted [OF assms(1,2)] assms(3))
qed

lemma candidates_sorted_list:
  fixes proj :: "'v \<Rightarrow> branch_id_t \<Rightarrow> region_t \<Rightarrow> state_timestamp_t"
  assumes "\<not> (\<exists>s. s |\<in>| voters old_c \<and> acks s = Some secondary_need_primary \<and> vers s = None)"
    and rs_def: "rs = sort (map (\<lambda>s. (proj (the (vers s)) (branch old_c) region, s))
                         (filter (\<lambda>s. acks s = Some secondary_need_primary)
                            (sorted_list_of_fset (voters old_c))))"
  shows "sorted rs \<and> distinct rs \<and> set rs = fset (candidates proj region old_c acks vers)"
proof -
  have "distinct (filter (\<lambda>s. acks s = Some secondary_need_primary)
                    (sorted_list_of_fset (voters old_c)))"
    by (simp add: sorted_list_of_fset.rep_eq)
  moreover have "inj (\<lambda>s. (proj (the (vers s)) (branch old_c) region, s))"
    by (simp add: inj_on_def)
  ultimately have "distinct (map (\<lambda>s. (proj (the (vers s)) (branch old_c) region, s))
                         (filter (\<lambda>s. acks s = Some secondary_need_primary)
                            (sorted_list_of_fset (voters old_c))))"
    by (simp add: distinct_map inj_on_def)
  then have d: "distinct rs" by (simp add: rs_def)
  have s: "sorted rs" by (simp add: rs_def)
  have "set rs = fset (candidates proj region old_c acks vers)"
    unfolding rs_def candidates_def need_primary_filter [OF assms(1), symmetric]
    by auto
  with s d show ?thesis by simp
qed

section \<open>What can be raised\<close>

lemma register_branch_old_no_primary:
  "primary old_c = None \<Longrightarrow> register_branch old_c acks brs c = Inr old_c"
  by (simp add: register_branch_def asks_for_branch_def)

lemma replace_primary_eq:
  assumes "primary c = Some p"
  shows "replace_primary p config acks k c =
     Inr (c\<lparr>primary :=
             (if k \<or> fcard (voters c) div 2 <
                      fcard (ffilter (\<lambda>s. acks s = Some secondary_need_primary) (voters c))
              then None
              else if server p \<noteq> primary_replica config \<and>
                      acks (primary_replica config) = Some secondary_streaming
              then (if hand_over p = Some (primary_replica config) \<and>
                       acks (server p) = Some primary_ready
                    then None
                    else Some (p\<lparr>hand_over := Some (primary_replica config)\<rparr>))
              else Some (p\<lparr>hand_over := None\<rparr>))\<rparr>)"
  using assms
  by (simp add: replace_primary_def Let_def set_hand_over_Some voters_cant_reach_primary_eq)

lemma no_commit_need_branch:
  assumes "primary old_c = Some p" "acks (server p) = Some primary_need_branch"
  shows "current_voters old_c acks = voters old_c"
  using assms by (simp add: current_voters_def commits_def split: option.splits)

lemma calculate_contract_raises_iff:
  "(versions_present old_c acks vers \<and> branch_present old_c config acks brs \<longrightarrow>
      (\<exists>c. calculate_contract proj region old_c config acks vers brs bm = Inr c)) \<and>
   (\<not> (versions_present old_c acks vers \<and> branch_present old_c config acks brs) \<longrightarrow>
      calculate_contract proj region old_c config acks vers brs bm = Inl out_of_range)"
proof (cases "primary old_c")
  case None
  then have v: "voters (settled old_c config acks) = voters old_c"
    by (simp add: settled_simps current_voters_no_primary)
  have b: "branch_present old_c config acks brs"
    using None by (simp add: branch_present_def)
  have vp: "versions_present old_c acks vers \<longleftrightarrow>
      \<not> (\<exists>s. s |\<in>| voters old_c \<and> acks s = Some secondary_need_primary \<and> vers s = None)"
    using None by (auto simp: versions_present_def)
  show ?thesis
  proof (cases "versions_present old_c acks vers")
    case True
    then have "\<exists>c calls. elect_primary proj region old_c config acks vers bm
                       (settled old_c config acks) = Inr (c, calls)"
      unfolding elect_primary_eq v vp by (simp split: option.split)
    then obtain c calls where
      "elect_primary proj region old_c config acks vers bm (settled old_c config acks)
         = Inr (c, calls)"
      by blast
    then have "\<exists>c. calculate_contract proj region old_c config acks vers brs bm = Inr c"
      using None
      by (simp add: calculate_contract_def run_calculate_contract_eq
            register_branch_old_no_primary)
    with True b show ?thesis by simp
  next
    case False
    then have ex: "\<exists>s. s |\<in>| voters old_c \<and> acks s = Some secondary_need_primary \<and>
                      vers s = None"
      unfolding vp by blast
    have "elect_primary proj region old_c config acks vers bm
                 (settled old_c config acks) = Inl out_of_range"
      by (subst elect_primary_eq) (simp only: v ex if_True)
    then have "calculate_contract proj region old_c config acks vers brs bm = Inl out_of_range"
      using None by (simp add: calculate_contract_def run_calculate_contract_eq)
    with False show ?thesis by simp
  qed
next
  case (Some p)
  have a: "versions_present old_c acks vers"
    using Some by (simp add: versions_present_def)
  have ps: "primary (settled old_c config acks) = Some p"
    using Some by (simp add: settled_simps)
  define q where "q =
     (if stale_primary old_c config \<or> fcard (current_voters old_c acks) div 2 <
            fcard (ffilter (\<lambda>s. acks s = Some secondary_need_primary) (current_voters old_c acks))
      then None
      else if server p \<noteq> primary_replica config \<and>
              acks (primary_replica config) = Some secondary_streaming
      then (if hand_over p = Some (primary_replica config) \<and>
               acks (server p) = Some primary_ready
            then None
            else Some (p\<lparr>hand_over := Some (primary_replica config)\<rparr>))
      else Some (p\<lparr>hand_over := None\<rparr>))"
  have rp: "replace_primary p config acks (stale_primary old_c config) (settled old_c config acks)
          = Inr ((settled old_c config acks)\<lparr>primary := q\<rparr>)"
    unfolding replace_primary_eq [OF ps] q_def by (simp add: settled_simps)
  have cc: "calculate_contract proj region old_c config acks vers brs bm =
      (case register_branch old_c acks brs ((settled old_c config acks)\<lparr>primary := q\<rparr>) of
         Inl e \<Rightarrow> Inl e
       | Inr old_c' \<Rightarrow> Inr ((settled old_c config acks)\<lparr>primary := q\<rparr>))"
    using Some by (simp add: calculate_contract_def run_calculate_contract_eq rp split: sum.splits)
  have ask: "asks_for_branch old_c acks ((settled old_c config acks)\<lparr>primary := q\<rparr>) \<longleftrightarrow>
      acks (server p) = Some primary_need_branch \<and> \<not> stale_primary old_c config \<and>
      \<not> fcard (voters old_c) div 2 <
          fcard (ffilter (\<lambda>s. acks s = Some secondary_need_primary) (voters old_c))"
  proof (cases "acks (server p) = Some primary_need_branch")
    case False
    then show ?thesis using Some by (simp add: asks_for_branch_def split: option.splits)
  next
    case True
    have cv: "current_voters old_c acks = voters old_c"
      using Some True by (rule no_commit_need_branch)
    show ?thesis
      using Some True unfolding q_def cv
      by (simp add: asks_for_branch_def)
  qed
  have bp: "branch_present old_c config acks brs \<longleftrightarrow>
      (asks_for_branch old_c acks ((settled old_c config acks)\<lparr>primary := q\<rparr>) \<longrightarrow>
         brs (server p) \<noteq> None)"
    unfolding ask using Some by (simp add: branch_present_def)
  show ?thesis
  proof (cases "branch_present old_c config acks brs")
    case True
    then have "\<exists>o'. register_branch old_c acks brs ((settled old_c config acks)\<lparr>primary := q\<rparr>)
                  = Inr o'"
      unfolding bp using Some
      by (auto simp: register_branch_def map_at_def split: option.splits)
    then have "\<exists>c. calculate_contract proj region old_c config acks vers brs bm = Inr c"
      unfolding cc by auto
    with True a show ?thesis by simp
  next
    case False
    then have "register_branch old_c acks brs ((settled old_c config acks)\<lparr>primary := q\<rparr>)
                  = Inl out_of_range"
      unfolding bp using Some
      by (auto simp: register_branch_def map_at_def split: option.splits)
    then have "calculate_contract proj region old_c config acks vers brs bm = Inl out_of_range"
      unfolding cc by simp
    with False show ?thesis by simp
  qed
qed


lemma ffilter_agree:
  "(\<And>s. s |\<in>| A \<Longrightarrow> P s = Q s) \<Longrightarrow> ffilter P A = ffilter Q A"
  by auto

lemma elect_primary_agree:
  assumes ack: "\<And>s. s |\<in>| voters c \<Longrightarrow> acks' s = acks s"
    and ver: "\<And>s. s |\<in>| voters c \<Longrightarrow> vers' s = vers s"
  shows "elect_primary proj region old_c config acks' vers' bm c =
         elect_primary proj region old_c config acks vers bm c"
proof -
  define xs where "xs = sorted_list_of_fset (voters c)"
  have mem: "s \<in> set xs \<longleftrightarrow> s |\<in>| voters c" for s
    by (simp add: xs_def)
  have f: "filter (\<lambda>s. acks' s = Some secondary_need_primary) xs =
           filter (\<lambda>s. acks s = Some secondary_need_primary) xs"
    by (rule filter_cong) (simp_all add: mem ack)
  have m: "map (\<lambda>s. (proj (the (vers' s)) (branch old_c) region, s))
             (filter (\<lambda>s. acks s = Some secondary_need_primary) xs) =
           map (\<lambda>s. (proj (the (vers s)) (branch old_c) region, s))
             (filter (\<lambda>s. acks s = Some secondary_need_primary) xs)"
    by (rule map_cong) (simp_all add: mem ver)
  define rs where "rs = sort (map (\<lambda>s. (proj (the (vers s)) (branch old_c) region, s))
                            (filter (\<lambda>s. acks s = Some secondary_need_primary) xs))"
  have ex: "(\<exists>s. s |\<in>| voters c \<and> acks' s = Some secondary_need_primary \<and> vers' s = None) \<longleftrightarrow>
            (\<exists>s. s |\<in>| voters c \<and> acks s = Some secondary_need_primary \<and> vers s = None)"
    using ack ver by auto
  have e: "the (vers' e) = the (vers e)"
    if "select_primary rs (primary_replica config) (fcard (voters c) div 2) None = Some e" for e
  proof -
    from that have "e \<in> snd ` set rs" by (rule select_primary_mem)
    then have "e |\<in>| voters c" by (auto simp: rs_def mem)
    then show ?thesis by (simp add: ver)
  qed
  show ?thesis
    unfolding elect_primary_eq ex xs_def [symmetric] f m rs_def [symmetric]
    using e by (auto split: option.splits)
qed

lemma calculate_contract_agree:
  assumes ack: "\<And>s. relevant old_c config s \<Longrightarrow> acks' s = acks s"
    and ver: "\<And>s. s |\<in>| voters old_c \<Longrightarrow> vers' s = vers s"
    and br: "\<And>s. is_primary old_c s \<Longrightarrow> brs' s = brs s"
  shows "calculate_contract proj region old_c config acks' vers' brs' bm =
         calculate_contract proj region old_c config acks vers brs bm"
proof -
  have num: "num_streaming old_c config acks' = num_streaming old_c config acks"
    unfolding num_streaming_eq
    by (rule arg_cong [where f = fcard], rule ffilter_agree) (simp add: ack relevant_def)
  have com: "commits old_c acks' = commits old_c acks"
    by (auto simp: commits_def ack relevant_def is_primary_def split: option.splits)
  have ini: "initiates old_c config acks' = initiates old_c config acks"
    by (simp add: initiates_def num)
  have cv: "current_voters old_c acks' = current_voters old_c acks"
    by (simp add: current_voters_def com split: option.splits)
  have st: "settled old_c config acks' = settled old_c config acks"
    by (simp add: settled_def cv ini com)
  have cvrel: "relevant old_c config s" if "s |\<in>| current_voters old_c acks" for s
    using that by (auto simp: current_voters_def relevant_def split: option.splits if_splits)
  show ?thesis
  proof (cases "primary old_c")
    case None
    have "elect_primary proj region old_c config acks' vers' bm (settled old_c config acks) =
          elect_primary proj region old_c config acks vers bm (settled old_c config acks)"
      by (rule elect_primary_agree)
         (simp_all add: settled_simps current_voters_no_primary [OF None] ack ver relevant_def)
    then show ?thesis
      using None
      by (simp add: calculate_contract_def run_calculate_contract_eq st
            register_branch_old_no_primary split: sum.splits prod.splits)
  next
    case (Some p)
    have ip: "is_primary old_c (server p)"
      using Some by (simp add: is_primary_def)
    have ap: "acks' (server p) = acks (server p)"
      by (rule ack) (simp add: relevant_def ip)
    have ar: "acks' (primary_replica config) = acks (primary_replica config)"
      by (rule ack) (simp add: relevant_def)
    have ps: "primary (settled old_c config acks) = Some p"
      using Some by (simp add: settled_simps)
    have cnt: "ffilter (\<lambda>s. acks' s = Some secondary_need_primary) (current_voters old_c acks) =
               ffilter (\<lambda>s. acks s = Some secondary_need_primary) (current_voters old_c acks)"
      by (rule ffilter_agree) (simp add: ack cvrel)
    have rp: "replace_primary p config acks' (stale_primary old_c config)
                (settled old_c config acks) =
              replace_primary p config acks (stale_primary old_c config)
                (settled old_c config acks)"
      unfolding replace_primary_eq [OF ps] by (simp add: settled_simps cnt ap ar)
    have aq: "asks_for_branch old_c acks' c = asks_for_branch old_c acks c" for c
      unfolding asks_for_branch_def Some option.case ap ..
    have rb: "register_branch old_c acks' brs' c = register_branch old_c acks brs c" for c
      unfolding register_branch_def aq Some option.case map_at_def br [OF ip] ..
    show ?thesis
      using Some
      by (simp add: calculate_contract_def run_calculate_contract_eq st rp rb
            split: sum.splits prod.splits)
  qed
qed

text \<open>
  Claim C1, amended. \<open>calculate_contract\<close> returns a contract, raising nothing, exactly
  when the input provides what lines 117 and 221 read: when the old contract has no
  primary, an entry in \<open>ack_versions\<close> for every voter that acked
  \<open>secondary_need_primary\<close>; and when the old contract has a primary that acked
  \<open>primary_need_branch\<close> and is kept by this call, an entry in \<open>ack_branches\<close> for that
  primary. On every other input \<open>std::map::at\<close> raises \<open>std::out_of_range\<close>. The acks of
  servers that are not relevant to the call are ignored: two inputs whose \<open>ack_states\<close>
  agree on the relevant servers, whose \<open>ack_versions\<close> agree on the old voters and whose
  \<open>ack_branches\<close> agree on the old primary have the same result.
\<close>

theorem calculate_contract_returns:
  "(versions_present old_c acks vers \<and> branch_present old_c config acks brs \<longrightarrow>
      (\<exists>c. calculate_contract proj region old_c config acks vers brs bm = Inr c)) \<and>
   (\<not> (versions_present old_c acks vers \<and> branch_present old_c config acks brs) \<longrightarrow>
      calculate_contract proj region old_c config acks vers brs bm = Inl out_of_range) \<and>
   ((\<forall>s. relevant old_c config s \<longrightarrow> acks' s = acks s) \<and>
    (\<forall>s. s |\<in>| voters old_c \<longrightarrow> vers' s = vers s) \<and>
    (\<forall>s. is_primary old_c s \<longrightarrow> brs' s = brs s) \<longrightarrow>
      calculate_contract proj region old_c config acks' vers' brs' bm =
      calculate_contract proj region old_c config acks vers brs bm)"
proof -
  have "calculate_contract proj region old_c config acks' vers' brs' bm =
        calculate_contract proj region old_c config acks vers brs bm"
    if "\<forall>s. relevant old_c config s \<longrightarrow> acks' s = acks s"
      and "\<forall>s. s |\<in>| voters old_c \<longrightarrow> vers' s = vers s"
      and "\<forall>s. is_primary old_c s \<longrightarrow> brs' s = brs s"
    using that by (intro calculate_contract_agree) simp_all
  with calculate_contract_raises_iff [of old_c acks vers config brs proj region bm]
  show ?thesis by blast
qed

theorem calculate_contract_returns_witness:
  "versions_present
     \<lparr>replicas = {|1, 2, 3|}, voters = {|1, 2, 3|}, temp_voters = None,
      primary = None, branch = 0\<rparr>
     [1 \<mapsto> secondary_need_primary, 9 \<mapsto> secondary_need_primary, 8 \<mapsto> primary_need_branch]
     [1 \<mapsto> (4::nat)] \<and>
   (\<exists>c. calculate_contract timestamp_of all_keys
          \<lparr>replicas = {|1, 2, 3|}, voters = {|1, 2, 3|}, temp_voters = None,
           primary = None, branch = 0\<rparr>
          \<lparr>config_replicas = {|1, 2, 3|}, primary_replica = 1\<rparr>
          [1 \<mapsto> secondary_need_primary, 9 \<mapsto> secondary_need_primary, 8 \<mapsto> primary_need_branch]
          [1 \<mapsto> (4::nat)] Map.empty branch_7
        = Inr c) \<and>
   calculate_contract timestamp_of all_keys
     \<lparr>replicas = {|1, 2, 3|}, voters = {|1, 2, 3|}, temp_voters = None,
      primary = None, branch = 0\<rparr>
     \<lparr>config_replicas = {|1, 2, 3|}, primary_replica = 1\<rparr>
     [1 \<mapsto> secondary_need_primary, 9 \<mapsto> secondary_need_primary, 8 \<mapsto> primary_need_branch]
     [1 \<mapsto> (4::nat), 9 \<mapsto> 6] [8 \<mapsto> 3] branch_7
   = calculate_contract timestamp_of all_keys
       \<lparr>replicas = {|1, 2, 3|}, voters = {|1, 2, 3|}, temp_voters = None,
        primary = None, branch = 0\<rparr>
       \<lparr>config_replicas = {|1, 2, 3|}, primary_replica = 1\<rparr>
       [1 \<mapsto> secondary_need_primary]
       [1 \<mapsto> (4::nat)] Map.empty branch_7 \<and>
   branch_present
     \<lparr>replicas = {|1, 2, 3|}, voters = {|1, 2, 3|}, temp_voters = None,
      primary = Some (primary_on 1), branch = 0\<rparr>
     \<lparr>config_replicas = {|1, 2, 3|}, primary_replica = 1\<rparr>
     [1 \<mapsto> primary_need_branch, 2 \<mapsto> secondary_need_primary]
     [1 \<mapsto> 7] \<and>
   (\<exists>c. calculate_contract timestamp_of all_keys
          \<lparr>replicas = {|1, 2, 3|}, voters = {|1, 2, 3|}, temp_voters = None,
           primary = Some (primary_on 1), branch = 0\<rparr>
          \<lparr>config_replicas = {|1, 2, 3|}, primary_replica = 1\<rparr>
          [1 \<mapsto> primary_need_branch, 2 \<mapsto> secondary_need_primary]
          (Map.empty :: nat \<rightharpoonup> nat) [1 \<mapsto> 7] branch_7
        = Inr c)"
  (is "?v \<and> ?r1 \<and> ?f \<and> ?b \<and> ?r2")
proof -
  have v: ?v
    by code_simp
  have b1: "branch_present
     \<lparr>replicas = {|1, 2, 3|}, voters = {|1, 2, 3|}, temp_voters = None,
      primary = None, branch = 0\<rparr>
     \<lparr>config_replicas = {|1, 2, 3|}, primary_replica = 1\<rparr>
     [1 \<mapsto> secondary_need_primary, 9 \<mapsto> secondary_need_primary, 8 \<mapsto> primary_need_branch]
     Map.empty"
    by (simp add: branch_present_def)
  have r1: ?r1
    by (rule calculate_contract_returns [THEN conjunct1, THEN mp]) (rule conjI [OF v b1])
  have f: ?f
    by (rule calculate_contract_returns [THEN conjunct2, THEN conjunct2, THEN mp])
       (auto simp: relevant_def is_primary_def)
  have b: ?b
    by code_simp
  have v2: "versions_present
     \<lparr>replicas = {|1, 2, 3|}, voters = {|1, 2, 3|}, temp_voters = None,
      primary = Some (primary_on 1), branch = 0\<rparr>
     [1 \<mapsto> primary_need_branch, 2 \<mapsto> secondary_need_primary]
     (Map.empty :: nat \<rightharpoonup> nat)"
    by (simp add: versions_present_def)
  have r2: ?r2
    by (rule calculate_contract_returns [THEN conjunct1, THEN mp]) (rule conjI [OF v2 b])
  from v r1 f b r2 show ?thesis
    by (intro conjI)
qed

text \<open>
  Claim C1 as stated fails: \<open>std::map::at\<close> raises \<open>std::out_of_range\<close> when a voter
  acked \<open>secondary_need_primary\<close> and has no entry in \<open>ack_versions\<close> (line 117), and when
  the primary that stays acked \<open>primary_need_branch\<close> and has no entry in \<open>ack_branches\<close>
  (line 221).
\<close>

theorem calculate_contract_raises_counterexample:
  "calculate_contract timestamp_of all_keys
     \<lparr>replicas = {|1, 2, 3|}, voters = {|1, 2, 3|}, temp_voters = None,
      primary = None, branch = 0\<rparr>
     \<lparr>config_replicas = {|1, 2, 3|}, primary_replica = 1\<rparr>
     [1 \<mapsto> secondary_need_primary]
     (Map.empty :: nat \<rightharpoonup> nat) Map.empty branch_7
   = Inl out_of_range \<and>
   calculate_contract timestamp_of all_keys
     \<lparr>replicas = {|1, 2, 3|}, voters = {|1, 2, 3|}, temp_voters = None,
      primary = Some (primary_on 1), branch = 0\<rparr>
     \<lparr>config_replicas = {|1, 2, 3|}, primary_replica = 1\<rparr>
     [1 \<mapsto> primary_need_branch]
     (Map.empty :: nat \<rightharpoonup> nat) Map.empty branch_7
   = Inl out_of_range"
  (is "?a \<and> ?b")
proof -
  have a: ?a
    by code_simp
  have b: ?b
    by code_simp
  from a b show ?thesis
    by (rule conjI)
qed

section \<open>Registering a branch\<close>

text \<open>
  Claim C2 at a concrete input: the old contract has primary \<open>1\<close> and branch \<open>0\<close>, the
  primary stays and acked \<open>primary_need_branch\<close> proposing branch \<open>7\<close>. The returned
  contract has branch \<open>0\<close>: line 221 assigns the proposed branch to \<open>old_c.branch\<close>, and
  \<open>branch_maker\<close> is not called.
\<close>

theorem proposed_branch_not_returned:
  "calculate_contract timestamp_of all_keys
     \<lparr>replicas = {|1, 2, 3|}, voters = {|1, 2, 3|}, temp_voters = None,
      primary = Some (primary_on 1), branch = 0\<rparr>
     \<lparr>config_replicas = {|1, 2, 3|}, primary_replica = 1\<rparr>
     [1 \<mapsto> primary_need_branch]
     [1 \<mapsto> (5::nat)] [1 \<mapsto> 7] branch_7
   = Inr \<lparr>replicas = {|1, 2, 3|}, voters = {|1, 2, 3|}, temp_voters = None,
          primary = Some (primary_on 1), branch = 0\<rparr> \<and>
   run_calculate_contract timestamp_of all_keys
     \<lparr>replicas = {|1, 2, 3|}, voters = {|1, 2, 3|}, temp_voters = None,
      primary = Some (primary_on 1), branch = 0\<rparr>
     \<lparr>config_replicas = {|1, 2, 3|}, primary_replica = 1\<rparr>
     [1 \<mapsto> primary_need_branch]
     [1 \<mapsto> (5::nat)] [1 \<mapsto> 7] branch_7
   = Inr \<lparr>final_new_c =
            \<lparr>replicas = {|1, 2, 3|}, voters = {|1, 2, 3|}, temp_voters = None,
             primary = Some (primary_on 1), branch = 0\<rparr>,
          final_old_c =
            \<lparr>replicas = {|1, 2, 3|}, voters = {|1, 2, 3|}, temp_voters = None,
             primary = Some (primary_on 1), branch = 7\<rparr>,
          branch_maker_calls = []\<rparr>"
  (is "?a \<and> ?b")
proof -
  have a: ?a
    by code_simp
  have b: ?b
    by code_simp
  from a b show ?thesis
    by (rule conjI)
qed

section \<open>The voter sets\<close>

text \<open>
  Claim C3, amended. When the old contract has no \<open>temp_voters\<close> and its voters differ
  from \<open>config.replicas\<close>, the returned contract has \<open>temp_voters\<close> set to
  \<open>config.replicas\<close> if and only if the servers of \<open>config.replicas\<close> that have acked the
  old contract and are streaming or the current primary are strictly more than half of
  \<open>config.replicas\<close>; otherwise it has no \<open>temp_voters\<close>.
\<close>

theorem temp_voters_set_iff_acked_majority:
  assumes "calculate_contract proj region old_c config acks vers brs bm = Inr c"
    and "temp_voters old_c = None"
    and "voters old_c \<noteq> config_replicas config"
  shows "temp_voters c =
           (if fcard (config_replicas config) div 2 <
               fcard (ffilter (acked_streaming_or_primary old_c acks) (config_replicas config))
            then Some (config_replicas config) else None)"
proof -
  have "(\<lambda>s. acks s \<noteq> None \<and> (acks s = Some secondary_streaming \<or> is_primary old_c s))
        = acked_streaming_or_primary old_c acks"
    by (simp add: fun_eq_iff acked_streaming_or_primary_def)
  then have n: "num_streaming old_c config acks =
      fcard (ffilter (acked_streaming_or_primary old_c acks) (config_replicas config))"
    by (simp add: num_streaming_eq)
  from assms(2) have "\<not> commits old_c acks" by (simp add: commits_def)
  moreover from assms(1) have "temp_voters c =
           (if initiates old_c config acks then Some (config_replicas config)
            else if commits old_c acks then None
            else temp_voters old_c)"
    by (simp add: calculate_contract_InrD settled_simps)
  ultimately show ?thesis
    using assms(2,3) by (simp add: initiates_def n)
qed

theorem temp_voters_set_iff_acked_majority_witness:
  "calculate_contract timestamp_of all_keys
     \<lparr>replicas = {|1|}, voters = {|1|}, temp_voters = None,
      primary = Some (primary_on 1), branch = 0\<rparr>
     \<lparr>config_replicas = {|1, 2, 3|}, primary_replica = 1\<rparr>
     [1 \<mapsto> primary_need_branch, 2 \<mapsto> secondary_streaming]
     [1 \<mapsto> (5::nat)] [1 \<mapsto> 9] branch_7
   = Inr \<lparr>replicas = {|1, 2, 3|}, voters = {|1|}, temp_voters = Some {|1, 2, 3|},
          primary = Some (primary_on 1), branch = 0\<rparr> \<and>
   temp_voters
     \<lparr>replicas = {|1|}, voters = {|1|}, temp_voters = None,
      primary = Some (primary_on 1), branch = 0\<rparr> = None \<and>
   voters
     \<lparr>replicas = {|1|}, voters = {|1|}, temp_voters = None,
      primary = Some (primary_on 1), branch = 0\<rparr>
   \<noteq> config_replicas \<lparr>config_replicas = {|1, 2, 3|}, primary_replica = 1\<rparr> \<and>
   fcard (config_replicas \<lparr>config_replicas = {|1, 2, 3|}, primary_replica = 1\<rparr>) div 2
   < fcard
       (ffilter
         (acked_streaming_or_primary
           \<lparr>replicas = {|1|}, voters = {|1|}, temp_voters = None,
            primary = Some (primary_on 1), branch = 0\<rparr>
           [1 \<mapsto> primary_need_branch, 2 \<mapsto> secondary_streaming])
         (config_replicas \<lparr>config_replicas = {|1, 2, 3|}, primary_replica = 1\<rparr>))"
  (is "?h \<and> ?t \<and> ?v \<and> ?n")
proof -
  have h: ?h
    by code_simp
  have t: ?t
    by simp
  have v: ?v
    by code_simp
  have n: ?n
    by code_simp
  from temp_voters_set_iff_acked_majority [OF h t v] h t v n show ?thesis
    by simp
qed

text \<open>
  Claim C3 as stated fails: the old primary \<open>1\<close> is in \<open>config.replicas = {1, 2, 3}\<close> and
  server \<open>2\<close> is streaming, so two of the three are streaming or the primary; the primary
  has no entry in \<open>ack_states\<close>, the code counts one, and \<open>temp_voters\<close> stays absent.
\<close>

theorem temp_voters_unacked_primary_counterexample:
  "temp_voters
     \<lparr>replicas = {|1|}, voters = {|1|}, temp_voters = None,
      primary = Some (primary_on 1), branch = 0\<rparr> = None \<and>
   voters
     \<lparr>replicas = {|1|}, voters = {|1|}, temp_voters = None,
      primary = Some (primary_on 1), branch = 0\<rparr>
   \<noteq> config_replicas \<lparr>config_replicas = {|1, 2, 3|}, primary_replica = 1\<rparr> \<and>
   fcard (config_replicas \<lparr>config_replicas = {|1, 2, 3|}, primary_replica = 1\<rparr>) div 2
   < spec_num_streaming
       \<lparr>replicas = {|1|}, voters = {|1|}, temp_voters = None,
        primary = Some (primary_on 1), branch = 0\<rparr>
       \<lparr>config_replicas = {|1, 2, 3|}, primary_replica = 1\<rparr>
       [2 \<mapsto> secondary_streaming] \<and>
   calculate_contract timestamp_of all_keys
     \<lparr>replicas = {|1|}, voters = {|1|}, temp_voters = None,
      primary = Some (primary_on 1), branch = 0\<rparr>
     \<lparr>config_replicas = {|1, 2, 3|}, primary_replica = 1\<rparr>
     [2 \<mapsto> secondary_streaming]
     [1 \<mapsto> (5::nat)] Map.empty branch_7
   = Inr \<lparr>replicas = {|1, 2, 3|}, voters = {|1|}, temp_voters = None,
          primary = Some (primary_on 1), branch = 0\<rparr>"
  (is "?t \<and> ?v \<and> ?n \<and> ?h")
proof -
  have t: ?t
    by simp
  have v: ?v
    by code_simp
  have n: ?n
    by code_simp
  have h: ?h
    by code_simp
  from t v n h show ?thesis
    by (intro conjI)
qed

text \<open>
  Claim C6. The guard that sets \<open>temp_voters\<close> and the guard that commits it never hold
  in the same call. When the first holds, the returned contract has \<open>temp_voters\<close> set to
  \<open>config.replicas\<close> and the old voters; when the second holds, it has no \<open>temp_voters\<close>
  and the old \<open>temp_voters\<close> as voters; when neither holds, both fields are the old ones.
\<close>

theorem initiate_and_commit_exclusive:
  assumes "calculate_contract proj region old_c config acks vers brs bm = Inr c"
  shows "\<not> (initiates old_c config acks \<and> commits old_c acks) \<and>
         (initiates old_c config acks \<longrightarrow>
            temp_voters c = Some (config_replicas config) \<and> voters c = voters old_c) \<and>
         (commits old_c acks \<longrightarrow>
            temp_voters c = None \<and> temp_voters old_c = Some (voters c)) \<and>
         (\<not> initiates old_c config acks \<and> \<not> commits old_c acks \<longrightarrow>
            temp_voters c = temp_voters old_c \<and> voters c = voters old_c)"
proof -
  have excl: "\<not> (initiates old_c config acks \<and> commits old_c acks)"
    by (auto simp: initiates_def commits_def)
  from assms have "voters c = current_voters old_c acks"
    and "temp_voters c =
           (if initiates old_c config acks then Some (config_replicas config)
            else if commits old_c acks then None
            else temp_voters old_c)"
    by (simp_all add: calculate_contract_InrD settled_simps)
  with excl show ?thesis
    by (auto simp: current_voters_def initiates_def commits_def split: option.splits)
qed

theorem initiate_and_commit_exclusive_witness:
  "calculate_contract timestamp_of all_keys
     \<lparr>replicas = {|1|}, voters = {|1|}, temp_voters = None,
      primary = Some (primary_on 1), branch = 0\<rparr>
     \<lparr>config_replicas = {|1, 2, 3|}, primary_replica = 1\<rparr>
     [1 \<mapsto> primary_ready, 2 \<mapsto> secondary_streaming]
     [1 \<mapsto> (5::nat)] Map.empty branch_7
   = Inr \<lparr>replicas = {|1, 2, 3|}, voters = {|1|}, temp_voters = Some {|1, 2, 3|},
          primary = Some (primary_on 1), branch = 0\<rparr> \<and>
   initiates
     \<lparr>replicas = {|1|}, voters = {|1|}, temp_voters = None,
      primary = Some (primary_on 1), branch = 0\<rparr>
     \<lparr>config_replicas = {|1, 2, 3|}, primary_replica = 1\<rparr>
     [1 \<mapsto> primary_ready, 2 \<mapsto> secondary_streaming] \<and>
   \<not> commits
     \<lparr>replicas = {|1|}, voters = {|1|}, temp_voters = None,
      primary = Some (primary_on 1), branch = 0\<rparr>
     [1 \<mapsto> primary_ready, 2 \<mapsto> secondary_streaming]"
  (is "?h \<and> ?i \<and> ?c")
proof -
  have h: ?h
    by code_simp
  have i: ?i
    by code_simp
  from initiate_and_commit_exclusive [OF h] h i show ?thesis
    by simp
qed

text \<open>
  Claim C10. The voters of the returned contract are either exactly the old contract's
  voters or exactly the old contract's \<open>temp_voters\<close>, and the latter only when the old
  contract has \<open>temp_voters\<close> and a primary that acked \<open>primary_ready\<close>; under that
  condition they are the old \<open>temp_voters\<close>.
\<close>

theorem voters_old_or_temp_voters:
  assumes "calculate_contract proj region old_c config acks vers brs bm = Inr c"
  shows "(voters c = voters old_c \<or>
          (\<exists>tv p. temp_voters old_c = Some tv \<and> primary old_c = Some p \<and>
                  acks (server p) = Some primary_ready \<and> voters c = tv)) \<and>
         (\<forall>tv p. temp_voters old_c = Some tv \<and> primary old_c = Some p \<and>
                 acks (server p) = Some primary_ready \<longrightarrow> voters c = tv)"
proof -
  from assms have "voters c = current_voters old_c acks"
    by (simp add: calculate_contract_InrD settled_simps)
  then show ?thesis
    by (auto simp: current_voters_def commits_def split: option.splits)
qed

theorem voters_old_or_temp_voters_witness:
  "calculate_contract timestamp_of all_keys
     \<lparr>replicas = {|1, 2, 3|}, voters = {|1, 2|}, temp_voters = Some {|1, 2, 3|},
      primary = Some (primary_on 1), branch = 0\<rparr>
     \<lparr>config_replicas = {|1, 2, 3|}, primary_replica = 1\<rparr>
     [1 \<mapsto> primary_ready, 2 \<mapsto> secondary_streaming, 3 \<mapsto> secondary_streaming]
     [1 \<mapsto> (5::nat)] Map.empty branch_7
   = Inr \<lparr>replicas = {|1, 2, 3|}, voters = {|1, 2, 3|}, temp_voters = None,
          primary = Some (primary_on 1), branch = 0\<rparr> \<and>
   voters
     \<lparr>replicas = {|1, 2, 3|}, voters = {|1, 2, 3|}, temp_voters = None,
      primary = Some (primary_on 1), branch = 0\<rparr> = {|1, 2, 3|}"
  (is "?h \<and> ?v")
proof -
  have h: ?h
    by code_simp
  from voters_old_or_temp_voters [OF h] h show ?thesis
    by simp
qed

section \<open>The replica set\<close>

text \<open>
  Claim C7. The replicas of the returned contract are among the old replicas and
  \<open>config.replicas\<close>. A server of the old replicas that is missing from the new ones is
  absent from \<open>config.replicas\<close>, from the voters and from \<open>temp_voters\<close> (of the old and
  of the returned contract), and is not the primary (of the old or of the returned
  contract).
\<close>

theorem replicas_grow_or_stale:
  assumes "calculate_contract proj region old_c config acks vers brs bm = Inr c"
  shows "replicas c |\<subseteq>| replicas old_c |\<union>| config_replicas config \<and>
         (\<forall>s. s |\<in>| replicas old_c \<and> s |\<notin>| replicas c \<longrightarrow>
              s |\<notin>| config_replicas config \<and>
              s |\<notin>| voters old_c \<and> (\<forall>tv. temp_voters old_c = Some tv \<longrightarrow> s |\<notin>| tv) \<and>
              \<not> is_primary old_c s \<and>
              s |\<notin>| voters c \<and> (\<forall>tv. temp_voters c = Some tv \<longrightarrow> s |\<notin>| tv))"
proof -
  from assms have r: "replicas c =
      (replicas old_c |\<union>| config_replicas config) |-|
      ffilter (\<lambda>s. removable old_c config s \<and> \<not> is_primary old_c s) (replicas old_c)"
    and v: "voters c = current_voters old_c acks"
    and t: "temp_voters c =
           (if initiates old_c config acks then Some (config_replicas config)
            else if commits old_c acks then None
            else temp_voters old_c)"
    by (simp_all add: calculate_contract_InrD settled_simps)
  have sub: "replicas c |\<subseteq>| replicas old_c |\<union>| config_replicas config"
    unfolding r by auto
  have gone: "removable old_c config s \<and> \<not> is_primary old_c s"
    if "s |\<in>| replicas old_c" "s |\<notin>| replicas c" for s
    using that unfolding r by auto
  have "s |\<notin>| config_replicas config \<and>
        s |\<notin>| voters old_c \<and> (\<forall>tv. temp_voters old_c = Some tv \<longrightarrow> s |\<notin>| tv) \<and>
        \<not> is_primary old_c s \<and>
        s |\<notin>| voters c \<and> (\<forall>tv. temp_voters c = Some tv \<longrightarrow> s |\<notin>| tv)"
    if "s |\<in>| replicas old_c" "s |\<notin>| replicas c" for s
    using gone [OF that] unfolding v t
    by (auto simp: removable_def current_voters_def split: option.splits if_splits)
  with sub show ?thesis by blast
qed

theorem replicas_grow_or_stale_witness:
  "calculate_contract timestamp_of all_keys
     \<lparr>replicas = {|1, 2, 3, 4|}, voters = {|1, 2, 3|}, temp_voters = None,
      primary = Some (primary_on 1), branch = 0\<rparr>
     \<lparr>config_replicas = {|1, 2, 3|}, primary_replica = 1\<rparr>
     [1 \<mapsto> primary_ready, 2 \<mapsto> secondary_streaming]
     [1 \<mapsto> (5::nat)] Map.empty branch_7
   = Inr \<lparr>replicas = {|1, 2, 3|}, voters = {|1, 2, 3|}, temp_voters = None,
          primary = Some (primary_on 1), branch = 0\<rparr> \<and>
   4 |\<in>| replicas
     \<lparr>replicas = {|1, 2, 3, 4|}, voters = {|1, 2, 3|}, temp_voters = None,
      primary = Some (primary_on 1), branch = 0\<rparr> \<and>
   4 |\<notin>| replicas
     \<lparr>replicas = {|1, 2, 3|}, voters = {|1, 2, 3|}, temp_voters = None,
      primary = Some (primary_on 1), branch = 0\<rparr> \<and>
   4 |\<notin>| voters
     \<lparr>replicas = {|1, 2, 3, 4|}, voters = {|1, 2, 3|}, temp_voters = None,
      primary = Some (primary_on 1), branch = 0\<rparr> \<and>
   \<not> is_primary
     \<lparr>replicas = {|1, 2, 3, 4|}, voters = {|1, 2, 3|}, temp_voters = None,
      primary = Some (primary_on 1), branch = 0\<rparr> 4"
  (is "?h \<and> ?a \<and> ?b \<and> ?c \<and> ?d")
proof -
  have h: ?h
    by code_simp
  have a: ?a
    by simp
  have b: ?b
    by simp
  from replicas_grow_or_stale [OF h] h a b show ?thesis
    by blast
qed

section \<open>Electing a primary\<close>

text \<open>
  Claim C4. When the old contract has no primary and the returned contract has one, the
  voters that acked \<open>secondary_need_primary\<close> with a version are at least
  \<open>|voters| / 2 + 1\<close>, strictly more than half of the voters; the voters are those of the
  old contract, which the returned contract keeps.
\<close>

theorem primary_elected_only_by_quorum:
  assumes "calculate_contract proj region old_c config acks vers brs bm = Inr c"
    and "primary old_c = None"
    and "primary c \<noteq> None"
  shows "fcard (voters old_c) div 2 + 1 \<le>
           fcard (ffilter (need_primary acks vers) (voters old_c)) \<and>
         voters c = voters old_c"
proof -
  define rs where "rs = sort (map (\<lambda>s. (proj (the (vers s)) (branch old_c) region, s))
                         (filter (\<lambda>s. acks s = Some secondary_need_primary)
                            (sorted_list_of_fset (voters old_c))))"
  from election_result [OF assms(2) assms(1)]
  have ok: "\<not> (\<exists>s. s |\<in>| voters old_c \<and> acks s = Some secondary_need_primary \<and> vers s = None)"
    and sel: "select_primary rs (primary_replica config) (fcard (voters old_c) div 2) None \<noteq> None"
    using assms(3) by (auto simp: rs_def)
  have "fcard (voters old_c) div 2 < length rs"
  proof (rule ccontr)
    assume "\<not> fcard (voters old_c) div 2 < length rs"
    then have "select_primary rs (primary_replica config) (fcard (voters old_c) div 2) None = None"
      by (simp add: select_primary_eq)
    with sel show False by simp
  qed
  moreover have "length rs = fcard (ffilter (need_primary acks vers) (voters old_c))"
    by (simp add: rs_def count_sorted_list_of_fset need_primary_filter [OF ok])
  moreover from assms(1,2) have "voters c = voters old_c"
    by (simp add: calculate_contract_InrD settled_simps current_voters_no_primary)
  ultimately show ?thesis by simp
qed

theorem primary_elected_only_by_quorum_witness:
  "calculate_contract timestamp_of all_keys
     \<lparr>replicas = {|1, 2, 3|}, voters = {|1, 2, 3|}, temp_voters = None,
      primary = None, branch = 0\<rparr>
     \<lparr>config_replicas = {|1, 2, 3|}, primary_replica = 1\<rparr>
     [2 \<mapsto> secondary_need_primary, 3 \<mapsto> secondary_need_primary]
     [2 \<mapsto> (4::nat), 3 \<mapsto> 4] Map.empty branch_7
   = Inr \<lparr>replicas = {|1, 2, 3|}, voters = {|1, 2, 3|}, temp_voters = None,
          primary = Some (primary_on 3), branch = 7\<rparr> \<and>
   primary
     \<lparr>replicas = {|1, 2, 3|}, voters = {|1, 2, 3|}, temp_voters = None,
      primary = None, branch = 0\<rparr> = None \<and>
   fcard
     (voters
       \<lparr>replicas = {|1, 2, 3|}, voters = {|1, 2, 3|}, temp_voters = None,
        primary = None, branch = 0\<rparr>) div 2 + 1
   \<le> fcard
       (ffilter (need_primary [2 \<mapsto> secondary_need_primary, 3 \<mapsto> secondary_need_primary] [2 \<mapsto> (4::nat), 3 \<mapsto> 4])
         (voters
           \<lparr>replicas = {|1, 2, 3|}, voters = {|1, 2, 3|}, temp_voters = None,
            primary = None, branch = 0\<rparr>))"
  (is "?h \<and> ?p \<and> ?q")
proof -
  have h: ?h
    by code_simp
  have p: ?p
    by simp
  have q: "primary
        \<lparr>replicas = {|1, 2, 3|}, voters = {|1, 2, 3|}, temp_voters = None,
         primary = Some (primary_on 3), branch = 7\<rparr> \<noteq> None"
    by simp
  from primary_elected_only_by_quorum [OF h p q] h p show ?thesis
    by simp
qed

text \<open>
  Claim C8. In an election (the old contract has no primary), the candidates are ranked
  by projected timestamp, then server id, and the eligible ones are those of rank at
  least \<open>|voters| / 2\<close>. If \<open>config.primary_replica\<close> is eligible it is elected;
  otherwise, if some candidate is eligible, the greatest candidate in that order is
  eligible and is elected; and with no eligible candidate no primary is elected.
\<close>

theorem elected_primary_choice:
  assumes "calculate_contract proj region old_c config acks vers brs bm = Inr c"
    and "primary old_c = None"
  shows "((\<exists>t. eligible old_c (candidates proj region old_c acks vers)
                  (t, primary_replica config)) \<longrightarrow>
            map_option server (primary c) = Some (primary_replica config)) \<and>
         (\<not> (\<exists>t. eligible old_c (candidates proj region old_c acks vers)
                    (t, primary_replica config)) \<longrightarrow>
            (\<forall>x. eligible old_c (candidates proj region old_c acks vers) x \<longrightarrow>
               (\<exists>m. eligible old_c (candidates proj region old_c acks vers) m \<and>
                    (\<forall>y. y |\<in>| candidates proj region old_c acks vers \<longrightarrow> y \<le> m) \<and>
                    map_option server (primary c) = Some (snd m)))) \<and>
         ((\<forall>x. \<not> eligible old_c (candidates proj region old_c acks vers) x) \<longrightarrow>
            primary c = None)"
proof -
  define C where "C = candidates proj region old_c acks vers"
  define n where "n = fcard (voters old_c) div 2"
  define pr where "pr = primary_replica config"
  define rs where "rs = sort (map (\<lambda>s. (proj (the (vers s)) (branch old_c) region, s))
                         (filter (\<lambda>s. acks s = Some secondary_need_primary)
                            (sorted_list_of_fset (voters old_c))))"
  from election_result [OF assms(2) assms(1)]
  have ok: "\<not> (\<exists>s. s |\<in>| voters old_c \<and> acks s = Some secondary_need_primary \<and> vers s = None)"
    and "map_option server (primary c) = select_primary rs pr n None"
    by (simp_all add: rs_def n_def pr_def option.map_comp comp_def option.map_ident)
  then have sel: "map_option server (primary c) =
      (if pr \<in> snd ` set (drop n rs) then Some pr
       else if n < length rs then Some (snd (last rs))
       else None)"
    by (simp add: select_primary_eq)
  from candidates_sorted_list [of old_c acks vers rs proj region] ok rs_def
  have srt: "sorted rs" and dst: "distinct rs" and set: "set rs = fset C"
    by (simp_all add: C_def)
  have el: "eligible old_c C x \<longleftrightarrow> x \<in> set (drop n rs)" for x
    unfolding n_def by (rule eligible_iff_drop [OF srt dst set])
  have a: "map_option server (primary c) = Some pr" if "\<exists>t. eligible old_c C (t, pr)"
  proof -
    from that obtain t where "(t, pr) \<in> set (drop n rs)" by (auto simp: el)
    then have "pr \<in> snd ` set (drop n rs)" by force
    with sel show ?thesis by simp
  qed
  have b: "\<exists>m. eligible old_c C m \<and> (\<forall>y. y |\<in>| C \<longrightarrow> y \<le> m) \<and>
               map_option server (primary c) = Some (snd m)"
    if no: "\<not> (\<exists>t. eligible old_c C (t, pr))" and some: "eligible old_c C x" for x
  proof -
    from some have ne: "drop n rs \<noteq> []" by (auto simp: el)
    then have lt: "n < length rs" by simp
    have "pr \<notin> snd ` set (drop n rs)"
    proof
      assume "pr \<in> snd ` set (drop n rs)"
      then obtain t where "(t, pr) \<in> set (drop n rs)" by force
      with no show False by (auto simp: el)
    qed
    with sel lt have "map_option server (primary c) = Some (snd (last rs))" by simp
    moreover from ne have "last rs \<in> set (drop n rs)"
      using last_in_set [of "drop n rs"] by (simp add: lt)
    then have "eligible old_c C (last rs)" by (simp add: el)
    moreover have "\<forall>y. y |\<in>| C \<longrightarrow> y \<le> last rs"
      using last_sorted_max [OF srt] set by auto
    ultimately show ?thesis by blast
  qed
  have c: "primary c = None" if "\<forall>x. \<not> eligible old_c C x"
  proof -
    from that have "set (drop n rs) = {}" by (auto simp: el)
    then have "\<not> n < length rs" "pr \<notin> snd ` set (drop n rs)" by auto
    with sel show ?thesis by simp
  qed
  from a b c show ?thesis
    unfolding C_def pr_def by blast
qed

theorem elected_primary_choice_witness:
  "calculate_contract timestamp_of all_keys
     \<lparr>replicas = {|1, 2, 3|}, voters = {|1, 2, 3|}, temp_voters = None,
      primary = None, branch = 0\<rparr>
     \<lparr>config_replicas = {|1, 2, 3|}, primary_replica = 2\<rparr>
     [1 \<mapsto> secondary_need_primary, 2 \<mapsto> secondary_need_primary, 3 \<mapsto> secondary_need_primary]
     [1 \<mapsto> (1::nat), 2 \<mapsto> 2, 3 \<mapsto> 3] Map.empty branch_7
   = Inr \<lparr>replicas = {|1, 2, 3|}, voters = {|1, 2, 3|}, temp_voters = None,
          primary = Some (primary_on 2), branch = 7\<rparr> \<and>
   eligible
     \<lparr>replicas = {|1, 2, 3|}, voters = {|1, 2, 3|}, temp_voters = None,
      primary = None, branch = 0\<rparr>
     (candidates timestamp_of all_keys
       \<lparr>replicas = {|1, 2, 3|}, voters = {|1, 2, 3|}, temp_voters = None,
        primary = None, branch = 0\<rparr>
       [1 \<mapsto> secondary_need_primary, 2 \<mapsto> secondary_need_primary, 3 \<mapsto> secondary_need_primary]
       [1 \<mapsto> (1::nat), 2 \<mapsto> 2, 3 \<mapsto> 3])
     (2, 2) \<and>
   map_option server
     (primary
       \<lparr>replicas = {|1, 2, 3|}, voters = {|1, 2, 3|}, temp_voters = None,
        primary = Some (primary_on 2), branch = 7\<rparr>) = Some 2"
  (is "?h \<and> ?e \<and> ?r")
proof -
  have h: ?h
    by code_simp
  have p: "primary
        \<lparr>replicas = {|1, 2, 3|}, voters = {|1, 2, 3|}, temp_voters = None,
         primary = None, branch = 0\<rparr> = None"
    by simp
  have e: ?e
    by code_simp
  from elected_primary_choice [OF h p] h e show ?thesis
    by (simp add: primary_on_def)
qed

section \<open>Removing the primary\<close>

text \<open>
  Claim C9, amended. When the old contract has a primary, and the voters of the contract
  being computed that acked \<open>secondary_need_primary\<close> are strictly more than half of
  them, \<open>calculate_contract\<close> returns a contract without a primary, whatever the
  configuration says. The voters of the contract being computed are the old
  \<open>temp_voters\<close> when this call commits a voter change (the old contract has
  \<open>temp_voters\<close> and its primary acked \<open>primary_ready\<close>) and the old voters otherwise;
  they are the voters of the returned contract.
\<close>

theorem failover_removes_primary:
  assumes "primary old_c = Some p"
    and "fcard (current_voters old_c acks) div 2 <
         fcard (ffilter (\<lambda>s. acks s = Some secondary_need_primary) (current_voters old_c acks))"
  shows "\<exists>c. calculate_contract proj region old_c config acks vers brs bm = Inr c \<and>
             primary c = None \<and> voters c = current_voters old_c acks"
proof -
  from assms(2) have
    "replace_primary p config acks (stale_primary old_c config) (settled old_c config acks)
       = Inr ((settled old_c config acks)\<lparr>primary := None\<rparr>)"
    by (simp add: replace_primary_def voters_cant_reach_primary_eq settled_simps)
  with assms(1) show ?thesis
    by (simp add: calculate_contract_def run_calculate_contract_eq register_branch_no_primary
          settled_simps)
qed

theorem failover_removes_primary_witness:
  "fcard
     (current_voters
       \<lparr>replicas = {|1, 2, 3|}, voters = {|1, 2, 3|}, temp_voters = None,
        primary = Some (primary_on 1), branch = 0\<rparr>
       [2 \<mapsto> secondary_need_primary, 3 \<mapsto> secondary_need_primary]) div 2
   < fcard
       (ffilter (\<lambda>s. [2 \<mapsto> secondary_need_primary, 3 \<mapsto> secondary_need_primary] s = Some secondary_need_primary)
         (current_voters
           \<lparr>replicas = {|1, 2, 3|}, voters = {|1, 2, 3|}, temp_voters = None,
            primary = Some (primary_on 1), branch = 0\<rparr>
           [2 \<mapsto> secondary_need_primary, 3 \<mapsto> secondary_need_primary])) \<and>
   calculate_contract timestamp_of all_keys
     \<lparr>replicas = {|1, 2, 3|}, voters = {|1, 2, 3|}, temp_voters = None,
      primary = Some (primary_on 1), branch = 0\<rparr>
     \<lparr>config_replicas = {|1, 2, 3|}, primary_replica = 1\<rparr>
     [2 \<mapsto> secondary_need_primary, 3 \<mapsto> secondary_need_primary]
     [1 \<mapsto> (5::nat)] Map.empty branch_7
   = Inr \<lparr>replicas = {|1, 2, 3|}, voters = {|1, 2, 3|}, temp_voters = None,
          primary = None, branch = 0\<rparr>"
  (is "?n \<and> ?h")
proof -
  have p: "primary
        \<lparr>replicas = {|1, 2, 3|}, voters = {|1, 2, 3|}, temp_voters = None,
         primary = Some (primary_on 1), branch = 0\<rparr> = Some (primary_on 1)"
    by simp
  have n: ?n
    by code_simp
  have h: ?h
    by code_simp
  from failover_removes_primary [OF p n] n h show ?thesis
    by simp
qed

text \<open>
  Claim C9 as stated fails: the old voters are \<open>{1, 2, 3}\<close>, and \<open>2\<close> and \<open>3\<close>, more than
  half of them, acked \<open>secondary_need_primary\<close>; the primary \<open>1\<close> acked \<open>primary_ready\<close>
  with \<open>temp_voters = {1, 4, 5}\<close>, so line 75 commits the voter change first, lines
  177-183 count none of \<open>{1, 4, 5}\<close>, and the primary is kept.
\<close>

theorem failover_by_old_voters_counterexample:
  "primary
     \<lparr>replicas = {|1, 2, 3, 4, 5|}, voters = {|1, 2, 3|}, temp_voters = Some {|1, 4, 5|},
      primary = Some (primary_on 1), branch = 0\<rparr> = Some (primary_on 1) \<and>
   fcard
     (voters
       \<lparr>replicas = {|1, 2, 3, 4, 5|}, voters = {|1, 2, 3|}, temp_voters = Some {|1, 4, 5|},
        primary = Some (primary_on 1), branch = 0\<rparr>) div 2
   < fcard
       (ffilter (\<lambda>s. [1 \<mapsto> primary_ready, 2 \<mapsto> secondary_need_primary, 3 \<mapsto> secondary_need_primary] s = Some secondary_need_primary)
         (voters
           \<lparr>replicas = {|1, 2, 3, 4, 5|}, voters = {|1, 2, 3|}, temp_voters = Some {|1, 4, 5|},
            primary = Some (primary_on 1), branch = 0\<rparr>)) \<and>
   calculate_contract timestamp_of all_keys
     \<lparr>replicas = {|1, 2, 3, 4, 5|}, voters = {|1, 2, 3|}, temp_voters = Some {|1, 4, 5|},
      primary = Some (primary_on 1), branch = 0\<rparr>
     \<lparr>config_replicas = {|1, 4, 5|}, primary_replica = 1\<rparr>
     [1 \<mapsto> primary_ready, 2 \<mapsto> secondary_need_primary, 3 \<mapsto> secondary_need_primary]
     [1 \<mapsto> (5::nat)] Map.empty branch_7
   = Inr \<lparr>replicas = {|1, 2, 3, 4, 5|}, voters = {|1, 4, 5|}, temp_voters = None,
          primary = Some (primary_on 1), branch = 0\<rparr>"
  (is "?p \<and> ?n \<and> ?h")
proof -
  have p: ?p
    by simp
  have n: ?n
    by code_simp
  have h: ?h
    by code_simp
  from p n h show ?thesis
    by (intro conjI)
qed

section \<open>The split points\<close>

text \<open>
  Claim C5 at a concrete input: two shards and two old contracts meet at key \<open>m\<close>, and
  one branch has an origin over the keys from \<open>a\<close> to \<open>f\<close>. The split points computed are
  \<open>a\<close> alone: \<open>m\<close>, a boundary of the configuration and of the old contracts, and
  \<open>f\<close>, the right boundary of the origin, are not among them.
\<close>

theorem split_points_miss_boundaries:
  "split_points
     (pump_contracts
       [(0, \<lparr>origin = [(\<lparr>inner = \<lparr>left = ''a'', right = Some ''f''\<rparr>\<rparr>, 5::nat)]\<rparr>)]
       \<lparr>table_config =
          [(\<lparr>left = [], right = Some ''m''\<rparr>, \<lparr>config_replicas = {|1, 2, 3|}, primary_replica = 1\<rparr>),
           (\<lparr>left = ''m'', right = None\<rparr>, \<lparr>config_replicas = {|1, 2, 3|}, primary_replica = 1\<rparr>)],
        contracts =
          [(1, \<lparr>inner = \<lparr>left = [], right = Some ''m''\<rparr>\<rparr>,
            \<lparr>replicas = {|1, 2, 3|}, voters = {|1, 2, 3|}, temp_voters = None,
             primary = Some (primary_on 1), branch = 0\<rparr>),
           (2, \<lparr>inner = \<lparr>left = ''m'', right = None\<rparr>\<rparr>,
            \<lparr>replicas = {|1, 2, 3|}, voters = {|1, 2, 3|}, temp_voters = None,
             primary = Some (primary_on 1), branch = 0\<rparr>)]\<rparr>)
   = {|''a''|}"
  by (simp add: pump_contracts_def)

end
